theory Spec2Isabelle
  imports Main "HOL-Library.AList"
begin

section \<open>Errors, time and durations\<close>

text \<open>
  The Go code builds every error with \<^verbatim>\<open>fmt.Errorf\<close>: either a fixed message, or a
  prefix wrapped around an inner error (\<^verbatim>\<open>"decode claims: %w"\<close>).  Errors are therefore
  distinguished by their message only.  \<open>CorruptInputError\<close> is the error value of the
  base64 decoder (its byte offset is not modelled).
\<close>

datatype error = Errorf string | Wrapf string error | CorruptInputError

text \<open>
  A \<^verbatim>\<open>time.Time\<close> is modelled by the instant it denotes, in nanoseconds on one time line;
  a \<^verbatim>\<open>time.Duration\<close> is a signed 64-bit count of nanoseconds.  Every call of
  \<^verbatim>\<open>time.Now()\<close> in the source is a parameter \<open>now\<close> of the model.
\<close>

type_synonym Time = int
type_synonym Duration = int

definition zero_Time :: Time where
  "zero_Time = - 62135596800000000000"

definition minDuration :: Duration where
  "minDuration = - (2 ^ 63)"

definition maxDuration :: Duration where
  "maxDuration = 2 ^ 63 - 1"

definition Time_After :: "Time \<Rightarrow> Time \<Rightarrow> bool" where
  "Time_After t u = (u < t)"

definition Time_Before :: "Time \<Rightarrow> Time \<Rightarrow> bool" where
  "Time_Before t u = (t < u)"

definition Time_Add :: "Time \<Rightarrow> Duration \<Rightarrow> Time" where
  "Time_Add t d = t + d"

text \<open>\<^verbatim>\<open>t.Sub(u)\<close> saturates at the largest and smallest duration.\<close>

definition Time_Sub :: "Time \<Rightarrow> Time \<Rightarrow> Duration" where
  "Time_Sub t u =
     (let d = t - u in
      if d > maxDuration then maxDuration
      else if d < minDuration then minDuration
      else d)"

text \<open>\<^verbatim>\<open>time.Since(t)\<close> is \<^verbatim>\<open>time.Now().Sub(t)\<close>.\<close>

definition time_Since :: "Time \<Rightarrow> Time \<Rightarrow> Duration" where
  "time_Since now t = Time_Sub now t"

text \<open>Multiplication of two durations wraps around in 64 bits.\<close>

definition Duration_mul :: "Duration \<Rightarrow> int \<Rightarrow> Duration" where
  "Duration_mul d k = (d * k + 2 ^ 63) mod 2 ^ 64 - 2 ^ 63"

section \<open>Standard-library functions used by the token code\<close>

subsection \<open>\<^verbatim>\<open>strings.Split\<close> with a one-byte separator\<close>

fun Split :: "string \<Rightarrow> char \<Rightarrow> string list" where
  "Split [] sep = [[]]"
| "Split (c # cs) sep =
     (if c = sep then [] # Split cs sep
      else (case Split cs sep of
              [] \<Rightarrow> [[c]]
            | p # ps \<Rightarrow> (c # p) # ps))"

subsection \<open>\<^verbatim>\<open>hmac.Equal\<close>\<close>

text \<open>The constant-time comparison returns true exactly on equal byte strings.\<close>

definition hmac_Equal :: "string \<Rightarrow> string \<Rightarrow> bool" where
  "hmac_Equal a b = (a = b)"

subsection \<open>\<^verbatim>\<open>base64.RawURLEncoding\<close>\<close>

text \<open>
  The URL-safe alphabet of RFC 4648, without padding.  The encoder takes three bytes at
  a time into a 24-bit value and emits its four 6-bit digits; one or two remaining
  bytes give two or three digits.
\<close>

definition encodeURL :: string where
  "encodeURL = ''ABCDEFGHIJKLMNOPQRSTUVWXYZabcdefghijklmnopqrstuvwxyz0123456789-_''"

fun sextets :: "string \<Rightarrow> nat list" where
  "sextets (a # b # c # rest) =
     (let val = of_char a * 65536 + of_char b * 256 + of_char c in
      [val div 262144 mod 64, val div 4096 mod 64, val div 64 mod 64, val mod 64]
        @ sextets rest)"
| "sextets [a, b] =
     (let val = of_char a * 65536 + of_char b * 256 in
      [val div 262144 mod 64, val div 4096 mod 64, val div 64 mod 64])"
| "sextets [a] =
     (let val = of_char a * 65536 in
      [val div 262144 mod 64, val div 4096 mod 64])"
| "sextets [] = []"

definition EncodeToString :: "string \<Rightarrow> string" where
  "EncodeToString src = map (\<lambda>v. encodeURL ! v) (sextets src)"

text \<open>
  The decoder skips carriage returns and line feeds, rejects every other byte outside
  the alphabet, and rejects a final group of a single digit.  It is not in strict mode:
  unused low bits of the last digit are dropped.
\<close>

fun index_of :: "'a \<Rightarrow> 'a list \<Rightarrow> nat option" where
  "index_of x [] = None"
| "index_of x (y # ys) = (if x = y then Some 0 else map_option Suc (index_of x ys))"

definition decodeMap :: "char \<Rightarrow> nat option" where
  "decodeMap c = index_of c encodeURL"

fun decode_quanta :: "nat list \<Rightarrow> string option" where
  "decode_quanta (w # x # y # z # rest) =
     (let val = w * 262144 + x * 4096 + y * 64 + z in
      map_option (\<lambda>tl. [char_of (val div 65536), char_of (val div 256), char_of val] @ tl)
        (decode_quanta rest))"
| "decode_quanta [w, x, y] =
     (let val = w * 262144 + x * 4096 + y * 64 in
      Some [char_of (val div 65536), char_of (val div 256)])"
| "decode_quanta [w, x] =
     (let val = w * 262144 + x * 4096 in
      Some [char_of (val div 65536)])"
| "decode_quanta [w] = None"
| "decode_quanta [] = Some []"

definition DecodeString :: "string \<Rightarrow> string option" where
  "DecodeString s =
     (case those (map decodeMap (filter (\<lambda>c. c \<noteq> CHR 0x0A \<and> c \<noteq> CHR 0x0D) s)) of
        None \<Rightarrow> None
      | Some ws \<Rightarrow> decode_quanta ws)"

section \<open>Tokens (packages \<^verbatim>\<open>token\<close> and \<^verbatim>\<open>jwt\<close>)\<close>

text \<open>
  Values of Go's \<^verbatim>\<open>any\<close> that occur in metadata and session data: \<open>AnyInt\<close> is an
  \<^verbatim>\<open>int64\<close>, \<open>AnyFloat64 n\<close> is the \<^verbatim>\<open>float64\<close> whose value is the integer \<open>n\<close> (the
  only floats that occur here), and a channel stands for the values \<^verbatim>\<open>encoding/json\<close>
  cannot encode.
\<close>

datatype any_value =
  AnyNil | AnyBool bool | AnyInt int | AnyFloat64 int | AnyString string | AnyChan nat

record Claims =
  Subject :: string
  Issuer :: string
  Audience :: string
  ExpiresAt :: Time
  IssuedAt :: Time
  NotBefore :: Time
  TokenID :: string
  Roles :: "string list"
  Metadata :: "(string \<times> any_value) list"

definition TypeAccess :: string where
  "TypeAccess = ''access''"

definition TypeRefresh :: string where
  "TypeRefresh = ''refresh''"

record Token =
  Value :: string
  Type :: string
  ExpiresAt :: Time
  IssuedAt :: Time
  Claims :: "(string \<times> any_value) list"

record Config =
  Secret :: string
  AccessTokenTTL :: Duration
  RefreshTokenTTL :: Duration
  Issuer :: string

record jwtService =
  config :: Config

text \<open>
  The algorithms of \<^verbatim>\<open>crypto/hmac\<close> with \<^verbatim>\<open>crypto/sha256\<close> and of \<^verbatim>\<open>encoding/json\<close> on a
  \<^verbatim>\<open>Claims\<close> value are not part of the repository; the token code is modelled
  relative to them.
\<close>

record stdlib =
  hmac_sha256 :: "string \<Rightarrow> string \<Rightarrow> string"
  json_Marshal :: "Claims \<Rightarrow> error + string"
  json_Unmarshal :: "string \<Rightarrow> error + Claims"

text \<open>
  \<^verbatim>\<open>json.Marshal\<close> of the fixed header map \<^verbatim>\<open>{"alg": "HS256", "typ": "JWT"}\<close>: keys in
  sorted order.  Marshalling a map of strings cannot fail, so the source's error branch
  after it is dead.
\<close>

definition headerJSON :: string where
  \<open>headerJSON = ''{"alg":"HS256","typ":"JWT"}''\<close>

definition NewService :: "Config \<Rightarrow> error + jwtService" where
  "NewService cfg =
     (if Secret cfg = [] then Inl (Errorf ''jwt secret is required'')
      else Inr \<lparr>config = cfg\<rparr>)"

definition sign :: "stdlib \<Rightarrow> jwtService \<Rightarrow> string \<Rightarrow> string" where
  "sign L s message = EncodeToString (hmac_sha256 L (Secret (config s)) message)"

definition stamp :: "jwtService \<Rightarrow> Time \<Rightarrow> Claims \<Rightarrow> Claims" where
  "stamp s now claims =
     claims\<lparr>Claims.Issuer := Config.Issuer (config s),
            Claims.IssuedAt := now,
            Claims.ExpiresAt := Time_Add now (AccessTokenTTL (config s))\<rparr>"

definition Generate :: "stdlib \<Rightarrow> jwtService \<Rightarrow> Time \<Rightarrow> Claims \<Rightarrow> error + Token" where
  "Generate L s now claims =
     (let expiresAt = Time_Add now (AccessTokenTTL (config s));
          claims' = stamp s now claims
      in case json_Marshal L claims' of
           Inl err \<Rightarrow> Inl (Wrapf ''marshal claims'' err)
         | Inr claimsJSON \<Rightarrow>
             (let headerEncoded = EncodeToString headerJSON;
                  claimsEncoded = EncodeToString claimsJSON;
                  message = headerEncoded @ ''.'' @ claimsEncoded;
                  signature = sign L s message;
                  tokenString = message @ ''.'' @ signature
              in Inr \<lparr>Value = tokenString, Type = TypeAccess,
                       Token.ExpiresAt = expiresAt, Token.IssuedAt = now, Claims = []\<rparr>))"

definition Validate :: "stdlib \<Rightarrow> jwtService \<Rightarrow> Time \<Rightarrow> string \<Rightarrow> error + Claims" where
  "Validate L s now tokenString =
     (case Split tokenString (CHR ''.'') of
        [headerEncoded, claimsEncoded, signature] \<Rightarrow>
          (let message = headerEncoded @ ''.'' @ claimsEncoded;
               expectedSignature = sign L s message
           in if \<not> hmac_Equal signature expectedSignature
              then Inl (Errorf ''invalid signature'')
              else (case DecodeString claimsEncoded of
                      None \<Rightarrow> Inl (Wrapf ''decode claims'' CorruptInputError)
                    | Some claimsJSON \<Rightarrow>
                        (case json_Unmarshal L claimsJSON of
                           Inl err \<Rightarrow> Inl (Wrapf ''unmarshal claims'' err)
                         | Inr claims \<Rightarrow>
                             if Time_After now (Claims.ExpiresAt claims)
                             then Inl (Errorf ''token expired'')
                             else Inr claims)))
      | _ \<Rightarrow> Inl (Errorf ''invalid token format''))"

text \<open>
  Where the signature segment of a token string starts: the position after its last
  separator.
\<close>

definition signature_offset :: "string \<Rightarrow> nat" where
  "signature_offset tokenString =
     length tokenString - length (last (Split tokenString (CHR ''.'')))"

section \<open>Logging\<close>

text \<open>
  The services write structured log entries: a level, a message and named fields.  The
  log is part of each service's state, so that what an operation logs can be stated.
\<close>

datatype log_field = FString string | FError error | FInt int

datatype log_entry =
  LogInfo string "(string \<times> log_field) list"
| LogWarn string "(string \<times> log_field) list"
| LogError string "(string \<times> log_field) list"

section \<open>Sessions (packages \<^verbatim>\<open>session\<close>, \<^verbatim>\<open>memory\<close> and the session service)\<close>

record Session =
  ID :: string
  UserID :: string
  ServiceID :: string
  Data :: "(string \<times> any_value) list"
  CreatedAt :: Time
  ExpiresAt :: Time
  UpdatedAt :: Time

definition IsExpired :: "Session \<Rightarrow> Time \<Rightarrow> bool" where
  "IsExpired s now = Time_After now (Session.ExpiresAt s)"

definition IsActive :: "Session \<Rightarrow> Time \<Rightarrow> bool" where
  "IsActive s now = (\<not> IsExpired s now)"

definition Touch :: "Session \<Rightarrow> Time \<Rightarrow> Session" where
  "Touch s now = s\<lparr>UpdatedAt := now\<rparr>"

subsection \<open>The in-memory session repository\<close>

text \<open>
  The repository is a Go map from identifiers to sessions, modelled as an association
  list with \<open>map_of\<close> for lookup, \<open>AList.update\<close> for assignment and \<open>AList.delete\<close>
  for \<^verbatim>\<open>delete\<close>; the order of the list is the order in which one \<^verbatim>\<open>range\<close> loop visits
  the map.  The Go map holds pointers, and \<^verbatim>\<open>Get\<close> hands out the stored pointer; the model
  stores values, which agrees with the source as long as every session is stored under
  its own identifier (\<open>keyed_by\<close> below), the state in which \<^verbatim>\<open>Create\<close> leaves the map.
\<close>

type_synonym SessionRepository = "(string \<times> Session) list"

definition NewSessionRepository :: SessionRepository where
  "NewSessionRepository = []"

definition SessionRepository_Create ::
  "SessionRepository \<Rightarrow> Session \<Rightarrow> error option \<times> SessionRepository" where
  "SessionRepository_Create r sess =
     (if map_of r (Session.ID sess) \<noteq> None
      then (Some (Errorf ''session already exists''), r)
      else (None, AList.update (Session.ID sess) sess r))"

definition SessionRepository_Get :: "SessionRepository \<Rightarrow> string \<Rightarrow> error + Session" where
  "SessionRepository_Get r sid =
     (case map_of r sid of
        None \<Rightarrow> Inl (Errorf ''session not found'')
      | Some sess \<Rightarrow> Inr sess)"

definition SessionRepository_Update ::
  "SessionRepository \<Rightarrow> Session \<Rightarrow> error option \<times> SessionRepository" where
  "SessionRepository_Update r sess =
     (if map_of r (Session.ID sess) = None
      then (Some (Errorf ''session not found''), r)
      else (None, AList.update (Session.ID sess) sess r))"

definition SessionRepository_Delete ::
  "SessionRepository \<Rightarrow> string \<Rightarrow> error option \<times> SessionRepository" where
  "SessionRepository_Delete r sid = (None, AList.delete sid r)"

text \<open>
  \<^verbatim>\<open>DeleteExpired\<close>: the loop visits the entries of the map, deletes the visited key when
  its session expired before \<open>now\<close>, and counts the deletions.
\<close>

fun DeleteExpired_loop ::
  "(string \<times> Session) list \<Rightarrow> Time \<Rightarrow> SessionRepository \<Rightarrow> nat \<Rightarrow> SessionRepository \<times> nat" where
  "DeleteExpired_loop [] now sessions count = (sessions, count)"
| "DeleteExpired_loop ((sid, sess) # rest) now sessions count =
     (if Time_Before (Session.ExpiresAt sess) now
      then DeleteExpired_loop rest now (AList.delete sid sessions) (count + 1)
      else DeleteExpired_loop rest now sessions count)"

definition SessionRepository_DeleteExpired ::
  "SessionRepository \<Rightarrow> Time \<Rightarrow> (nat \<times> error option) \<times> SessionRepository" where
  "SessionRepository_DeleteExpired r now =
     (case DeleteExpired_loop r now r 0 of
        (sessions, count) \<Rightarrow> ((count, None), sessions))"

subsection \<open>The session service\<close>

record session_Service =
  repo :: SessionRepository
  defaultTTL :: Duration
  cleanupPeriod :: Duration
  logger :: "log_entry list"

definition session_Get ::
  "session_Service \<Rightarrow> Time \<Rightarrow> string \<Rightarrow> (error + Session) \<times> session_Service" where
  "session_Get s now sid =
     (case SessionRepository_Get (repo s) sid of
        Inl err \<Rightarrow> (Inl (Wrapf ''get session'' err), s)
      | Inr sess \<Rightarrow>
          if IsExpired sess now
          then (Inl (Errorf ''session expired''),
                s\<lparr>logger := logger s @
                  [LogWarn ''attempted to access expired session'' [(''session_id'', FString sid)]]\<rparr>)
          else (Inr sess, s))"

text \<open>
  \<^verbatim>\<open>Update\<close> reads the clock twice: in \<^verbatim>\<open>Get\<close> (\<open>now\<close>) and in \<^verbatim>\<open>Touch\<close> (\<open>now'\<close>).
\<close>

definition session_Update ::
  "session_Service \<Rightarrow> Time \<Rightarrow> Time \<Rightarrow> string \<Rightarrow> (string \<times> any_value) list
     \<Rightarrow> error option \<times> session_Service" where
  "session_Update s now now' sid data =
     (case session_Get s now sid of
        (Inl err, s1) \<Rightarrow> (Some err, s1)
      | (Inr sess, s1) \<Rightarrow>
          (let sess' = Touch (sess\<lparr>Data := data\<rparr>) now' in
           case SessionRepository_Update (repo s1) sess' of
             (Some err, r) \<Rightarrow>
               (Some (Wrapf ''update session'' err),
                s1\<lparr>repo := r, logger := logger s1 @
                  [LogError ''failed to update session''
                     [(''error'', FError err), (''session_id'', FString sid)]]\<rparr>)
           | (None, r) \<Rightarrow> (None, s1\<lparr>repo := r\<rparr>)))"

text \<open>One tick of the ticker in \<^verbatim>\<open>StartCleanup\<close>: one cleanup sweep.\<close>

definition cleanup_tick :: "session_Service \<Rightarrow> Time \<Rightarrow> session_Service" where
  "cleanup_tick s now =
     (case SessionRepository_DeleteExpired (repo s) now of
        ((deleted, Some err), r) \<Rightarrow>
          s\<lparr>repo := r, logger := logger s @
            [LogError ''failed to delete expired sessions'' [(''error'', FError err)]]\<rparr>
      | ((deleted, None), r) \<Rightarrow>
          if deleted > 0
          then s\<lparr>repo := r, logger := logger s @
                 [LogInfo ''cleaned up expired sessions'' [(''count'', FInt (int deleted))]]\<rparr>
          else s\<lparr>repo := r\<rparr>)"

text \<open>Every entry is stored under the identifier it carries, and no key occurs twice.\<close>

definition keyed_by :: "('a \<Rightarrow> string) \<Rightarrow> (string \<times> 'a) list \<Rightarrow> bool" where
  "keyed_by ident r = (distinct (map fst r) \<and> list_all (\<lambda>(k, v). ident v = k) r)"

section \<open>The service registry (packages \<^verbatim>\<open>service\<close>, \<^verbatim>\<open>memory\<close> and \<^verbatim>\<open>registry\<close>)\<close>

text \<open>\<^verbatim>\<open>Status\<close> is a string type with three named values.\<close>

definition StatusHealthy :: string where
  "StatusHealthy = ''healthy''"

definition StatusUnhealthy :: string where
  "StatusUnhealthy = ''unhealthy''"

definition StatusUnknown :: string where
  "StatusUnknown = ''unknown''"

record Service =
  ID :: string
  Name :: string
  Version :: string
  Endpoints :: "string list"
  Capabilities :: "string list"
  Metadata :: "(string \<times> string) list"
  Status :: string
  RegisteredAt :: Time
  LastHeartbeat :: Time
  HealthCheckURL :: string

definition IsHealthy :: "Service \<Rightarrow> Time \<Rightarrow> Duration \<Rightarrow> bool" where
  "IsHealthy s now timeout =
     (if Status s = StatusUnhealthy then False
      else time_Since now (LastHeartbeat s) < timeout)"

definition UpdateHeartbeat :: "Service \<Rightarrow> Time \<Rightarrow> Service" where
  "UpdateHeartbeat s now = s\<lparr>LastHeartbeat := now, Status := StatusHealthy\<rparr>"

definition MarkUnhealthy :: "Service \<Rightarrow> Service" where
  "MarkUnhealthy s = s\<lparr>Status := StatusUnhealthy\<rparr>"

subsection \<open>The in-memory registry repository\<close>

text \<open>
  As for sessions: a Go map from identifiers to service records, as an association
  list.  \<^verbatim>\<open>List\<close> returns the records in the order of one iteration over the map.
\<close>

type_synonym RegistryRepository = "(string \<times> Service) list"

definition RegistryRepository_Register ::
  "RegistryRepository \<Rightarrow> Service \<Rightarrow> error option \<times> RegistryRepository" where
  "RegistryRepository_Register r svc = (None, AList.update (Service.ID svc) svc r)"

definition RegistryRepository_Deregister ::
  "RegistryRepository \<Rightarrow> string \<Rightarrow> error option \<times> RegistryRepository" where
  "RegistryRepository_Deregister r sid = (None, AList.delete sid r)"

definition RegistryRepository_Get :: "RegistryRepository \<Rightarrow> string \<Rightarrow> error + Service" where
  "RegistryRepository_Get r sid =
     (case map_of r sid of
        None \<Rightarrow> Inl (Errorf ''service not found'')
      | Some svc \<Rightarrow> Inr svc)"

definition RegistryRepository_List :: "RegistryRepository \<Rightarrow> error + Service list" where
  "RegistryRepository_List r = Inr (map snd r)"

definition RegistryRepository_Update ::
  "RegistryRepository \<Rightarrow> Service \<Rightarrow> error option \<times> RegistryRepository" where
  "RegistryRepository_Update r svc =
     (if map_of r (Service.ID svc) = None
      then (Some (Errorf ''service not found''), r)
      else (None, AList.update (Service.ID svc) svc r))"

subsection \<open>The registry service\<close>

record registry_Service =
  repo :: RegistryRepository
  healthCheckInterval :: Duration
  healthCheckTimeout :: Duration
  logger :: "log_entry list"

definition registry_Register ::
  "registry_Service \<Rightarrow> Time \<Rightarrow> Service \<Rightarrow> error option \<times> registry_Service" where
  "registry_Register s now svc =
     (let svc' = svc\<lparr>RegisteredAt := now, LastHeartbeat := now, Status := StatusHealthy\<rparr> in
      case RegistryRepository_Register (repo s) svc' of
        (Some err, r) \<Rightarrow>
          (Some (Wrapf ''register service'' err),
           s\<lparr>repo := r, logger := logger s @
             [LogError ''failed to register service''
                [(''error'', FError err), (''service'', FString (Name svc'))]]\<rparr>)
      | (None, r) \<Rightarrow>
          (None,
           s\<lparr>repo := r, logger := logger s @
             [LogInfo ''service registered''
                [(''service_id'', FString (Service.ID svc')), (''name'', FString (Name svc')),
                 (''version'', FString (Version svc'))]]\<rparr>))"

definition registry_List :: "registry_Service \<Rightarrow> error + Service list" where
  "registry_List s =
     (case RegistryRepository_List (repo s) of
        Inl err \<Rightarrow> Inl (Wrapf ''list services'' err)
      | Inr services \<Rightarrow> Inr services)"

fun hasCapability_loop :: "string list \<Rightarrow> string \<Rightarrow> bool" where
  "hasCapability_loop [] capability = False"
| "hasCapability_loop (cap # caps) capability =
     (if cap = capability then True else hasCapability_loop caps capability)"

definition hasCapability :: "Service \<Rightarrow> string \<Rightarrow> bool" where
  "hasCapability svc capability =
     (if capability = [] then True
      else hasCapability_loop (Capabilities svc) capability)"

fun Discover_loop :: "Service list \<Rightarrow> string \<Rightarrow> Service list \<Rightarrow> Service list" where
  "Discover_loop [] capability matched = matched"
| "Discover_loop (svc # rest) capability matched =
     (if Status svc = StatusHealthy \<and> hasCapability svc capability
      then Discover_loop rest capability (matched @ [svc])
      else Discover_loop rest capability matched)"

definition Discover :: "registry_Service \<Rightarrow> string \<Rightarrow> error + Service list" where
  "Discover s capability =
     (case registry_List s of
        Inl err \<Rightarrow> Inl err
      | Inr services \<Rightarrow> Inr (Discover_loop services capability []))"

definition Heartbeat ::
  "registry_Service \<Rightarrow> Time \<Rightarrow> string \<Rightarrow> error option \<times> registry_Service" where
  "Heartbeat s now sid =
     (case RegistryRepository_Get (repo s) sid of
        Inl err \<Rightarrow> (Some (Wrapf ''get service'' err), s)
      | Inr svc \<Rightarrow>
          (case RegistryRepository_Update (repo s) (UpdateHeartbeat svc now) of
             (Some err, r) \<Rightarrow>
               (Some (Wrapf ''update heartbeat'' err),
                s\<lparr>repo := r, logger := logger s @
                  [LogError ''failed to update heartbeat''
                     [(''error'', FError err), (''service_id'', FString sid)]]\<rparr>)
           | (None, r) \<Rightarrow> (None, s\<lparr>repo := r\<rparr>)))"

text \<open>
  One health-monitor sweep.  A record without a health-check URL is judged by its
  heartbeat; the result of \<^verbatim>\<open>repo.Update\<close> is discarded, as in the source.  For a record
  with a URL the sweep only starts a probe (a goroutine); the loop returns the records
  it started probes for.  The clock readings of one sweep are identified in \<open>now\<close>.
\<close>

fun performHealthChecks_loop ::
  "Service list \<Rightarrow> Time \<Rightarrow> registry_Service \<Rightarrow> Service list
     \<Rightarrow> registry_Service \<times> Service list" where
  "performHealthChecks_loop [] now s probes = (s, probes)"
| "performHealthChecks_loop (svc # rest) now s probes =
     (if HealthCheckURL svc = [] then
        (if \<not> IsHealthy svc now (Duration_mul (healthCheckInterval s) 2) then
           (let svc' = MarkUnhealthy svc;
                r = snd (RegistryRepository_Update (repo s) svc');
                s' = s\<lparr>repo := r, logger := logger s @
                       [LogWarn ''service marked unhealthy (heartbeat timeout)''
                          [(''service_id'', FString (Service.ID svc')),
                           (''name'', FString (Name svc'))]]\<rparr>
            in performHealthChecks_loop rest now s' probes)
         else performHealthChecks_loop rest now s probes)
      else performHealthChecks_loop rest now s (probes @ [svc]))"

definition performHealthChecks ::
  "registry_Service \<Rightarrow> Time \<Rightarrow> registry_Service \<times> Service list" where
  "performHealthChecks s now =
     (case RegistryRepository_List (repo s) of
        Inl err \<Rightarrow>
          (s\<lparr>logger := logger s @
             [LogError ''failed to list services for health check'' [(''error'', FError err)]]\<rparr>,
           [])
      | Inr services \<Rightarrow> performHealthChecks_loop services now s [])"

text \<open>
  Two abbreviations for stating what a sweep does: the condition under which the loop
  marks a record without a health-check URL, written with plain arithmetic, and the
  warning it logs then.
\<close>

definition heartbeat_timed_out :: "Service \<Rightarrow> Time \<Rightarrow> Duration \<Rightarrow> bool" where
  "heartbeat_timed_out svc now interval =
     (Status svc = StatusUnhealthy \<or> 2 * interval \<le> now - LastHeartbeat svc)"

definition heartbeat_warning :: "Service \<Rightarrow> log_entry" where
  "heartbeat_warning svc =
     LogWarn ''service marked unhealthy (heartbeat timeout)''
       [(''service_id'', FString (Service.ID svc)), (''name'', FString (Name svc))]"

section \<open>Sample values\<close>

text \<open>
  The configuration of the repository's own test of the token service, and a sample
  of the standard library at the inputs used below: the JSON texts \<^verbatim>\<open>encoding/json\<close>
  produces for three stamped claims values (times in UTC), and the HMAC-SHA256 values
  of the three resulting messages under the key \<^verbatim>\<open>test-secret\<close>.  A claims value whose
  metadata holds a channel has no JSON encoding.  The third claims value carries the
  \<^verbatim>\<open>int64\<close> \<open>2\<^sup>5\<^sup>3 + 1\<close> in its metadata: it is marshalled as the digits of that number,
  and unmarshalling into a \<^verbatim>\<open>map[string]any\<close> reads a JSON number as a \<^verbatim>\<open>float64\<close>, here
  the nearest one, \<open>2\<^sup>5\<^sup>3\<close>.
\<close>

definition cfg_test :: Config where
  "cfg_test = \<lparr>Secret = ''test-secret'', AccessTokenTTL = 900000000000,
                RefreshTokenTTL = 86400000000000, Issuer = ''root-server''\<rparr>"

definition svc_test :: jwtService where
  "svc_test = \<lparr>config = cfg_test\<rparr>"

definition t0 :: Time where
  "t0 = 1704067200000000000"

definition claims_user123 :: Claims where
  "claims_user123 =
     \<lparr>Subject = ''user-123'', Issuer = [], Audience = [], ExpiresAt = zero_Time,
      IssuedAt = zero_Time, NotBefore = zero_Time, TokenID = [], Roles = [''admin''],
      Metadata = []\<rparr>"

definition claims_user456 :: Claims where
  "claims_user456 =
     \<lparr>Subject = ''user-456'', Issuer = [], Audience = [], ExpiresAt = zero_Time,
      IssuedAt = zero_Time, NotBefore = t0 + 3600000000000, TokenID = [], Roles = [''user''],
      Metadata = []\<rparr>"

definition claims_chan :: Claims where
  "claims_chan =
     \<lparr>Subject = ''user-789'', Issuer = [], Audience = [], ExpiresAt = zero_Time,
      IssuedAt = zero_Time, NotBefore = zero_Time, TokenID = [], Roles = [],
      Metadata = [(''reply'', AnyChan 0)]\<rparr>"

definition claims_bigint :: Claims where
  "claims_bigint =
     \<lparr>Subject = ''batch-7'', Issuer = [], Audience = [], ExpiresAt = zero_Time,
      IssuedAt = zero_Time, NotBefore = zero_Time, TokenID = [], Roles = [],
      Metadata = [(''n'', AnyInt 9007199254740993)]\<rparr>"

definition json_user123 :: string where
  \<open>json_user123 = ''{"sub":"user-123","iss":"root-server","exp":"2024-01-01T00:15:00Z","iat":"2024-01-01T00:00:00Z","nbf":"0001-01-01T00:00:00Z","roles":["admin"]}''\<close>

definition json_user456 :: string where
  \<open>json_user456 = ''{"sub":"user-456","iss":"root-server","exp":"2024-01-01T00:15:00Z","iat":"2024-01-01T00:00:00Z","nbf":"2024-01-01T01:00:00Z","roles":["user"]}''\<close>

definition json_bigint :: string where
  \<open>json_bigint = ''{"sub":"batch-7","iss":"root-server","exp":"2024-01-01T00:15:00Z","iat":"2024-01-01T00:00:00Z","nbf":"0001-01-01T00:00:00Z","metadata":{"n":9007199254740993}}''\<close>

definition message_user123 :: string where
  "message_user123 = ''eyJhbGciOiJIUzI1NiIsInR5cCI6IkpXVCJ9.eyJzdWIiOiJ1c2VyLTEyMyIsImlzcyI6InJvb3Qtc2VydmVyIiwiZXhwIjoiMjAyNC0wMS0wMVQwMDoxNTowMFoiLCJpYXQiOiIyMDI0LTAxLTAxVDAwOjAwOjAwWiIsIm5iZiI6IjAwMDEtMDEtMDFUMDA6MDA6MDBaIiwicm9sZXMiOlsiYWRtaW4iXX0''"

definition message_user456 :: string where
  "message_user456 = ''eyJhbGciOiJIUzI1NiIsInR5cCI6IkpXVCJ9.eyJzdWIiOiJ1c2VyLTQ1NiIsImlzcyI6InJvb3Qtc2VydmVyIiwiZXhwIjoiMjAyNC0wMS0wMVQwMDoxNTowMFoiLCJpYXQiOiIyMDI0LTAxLTAxVDAwOjAwOjAwWiIsIm5iZiI6IjIwMjQtMDEtMDFUMDE6MDA6MDBaIiwicm9sZXMiOlsidXNlciJdfQ''"

definition message_bigint :: string where
  "message_bigint = ''eyJhbGciOiJIUzI1NiIsInR5cCI6IkpXVCJ9.eyJzdWIiOiJiYXRjaC03IiwiaXNzIjoicm9vdC1zZXJ2ZXIiLCJleHAiOiIyMDI0LTAxLTAxVDAwOjE1OjAwWiIsImlhdCI6IjIwMjQtMDEtMDFUMDA6MDA6MDBaIiwibmJmIjoiMDAwMS0wMS0wMVQwMDowMDowMFoiLCJtZXRhZGF0YSI6eyJuIjo5MDA3MTk5MjU0NzQwOTkzfX0''"

definition mac_user123 :: string where
  "mac_user123 =
     [CHR 0xC2, CHR 0x61, CHR 0x14, CHR 0xB9, CHR 0xA4, CHR 0x5A, CHR 0xD7, CHR 0x79,
      CHR 0xC0, CHR 0x00, CHR 0x80, CHR 0x1A, CHR 0x2C, CHR 0xAB, CHR 0x50, CHR 0xD0,
      CHR 0x9C, CHR 0xDE, CHR 0x90, CHR 0x99, CHR 0x54, CHR 0x9C, CHR 0x7B, CHR 0x44,
      CHR 0x25, CHR 0x93, CHR 0x1E, CHR 0x80, CHR 0x8B, CHR 0x21, CHR 0xF5, CHR 0xD9]"

definition mac_user456 :: string where
  "mac_user456 =
     [CHR 0xE5, CHR 0x51, CHR 0x0B, CHR 0xAC, CHR 0xCE, CHR 0xE9, CHR 0x57, CHR 0x23,
      CHR 0x83, CHR 0xB5, CHR 0x99, CHR 0xA3, CHR 0x0A, CHR 0xA1, CHR 0xC8, CHR 0x35,
      CHR 0xAC, CHR 0xF5, CHR 0x97, CHR 0x86, CHR 0xA9, CHR 0x1E, CHR 0x80, CHR 0x2C,
      CHR 0xEF, CHR 0x9C, CHR 0x4A, CHR 0xDB, CHR 0xFD, CHR 0x8B, CHR 0x7A, CHR 0x14]"

definition mac_bigint :: string where
  "mac_bigint =
     [CHR 0xD7, CHR 0x79, CHR 0x0E, CHR 0x7A, CHR 0x1F, CHR 0x1D, CHR 0x18, CHR 0xB9,
      CHR 0xCE, CHR 0xC1, CHR 0xA1, CHR 0xCB, CHR 0x7C, CHR 0xD8, CHR 0x1E, CHR 0xFC,
      CHR 0x90, CHR 0x7F, CHR 0x1C, CHR 0xCE, CHR 0x4E, CHR 0xC3, CHR 0x4F, CHR 0x22,
      CHR 0xD7, CHR 0x92, CHR 0x1C, CHR 0x99, CHR 0xCC, CHR 0x35, CHR 0x1D, CHR 0xCC]"

definition sample_hmac_sha256 :: "string \<Rightarrow> string \<Rightarrow> string" where
  "sample_hmac_sha256 key message =
     (if key = ''test-secret'' \<and> message = message_user123 then mac_user123
      else if key = ''test-secret'' \<and> message = message_user456 then mac_user456
      else if key = ''test-secret'' \<and> message = message_bigint then mac_bigint
      else replicate 32 (CHR 0x00))"

definition holds_chan :: "(string \<times> any_value) list \<Rightarrow> bool" where
  "holds_chan m = list_ex (\<lambda>(k, v). case v of AnyChan n \<Rightarrow> True | _ \<Rightarrow> False) m"

definition sample_json_Marshal :: "Claims \<Rightarrow> error + string" where
  "sample_json_Marshal c =
     (if holds_chan (Claims.Metadata c) then Inl (Errorf ''json: unsupported type: chan int'')
      else if c = stamp svc_test t0 claims_user123 then Inr json_user123
      else if c = stamp svc_test t0 claims_user456 then Inr json_user456
      else if c = stamp svc_test t0 claims_bigint then Inr json_bigint
      else Inl (Errorf ''json: value outside the sample''))"

definition sample_json_Unmarshal :: "string \<Rightarrow> error + Claims" where
  "sample_json_Unmarshal js =
     (if js = json_user123 then Inr (stamp svc_test t0 claims_user123)
      else if js = json_user456 then Inr (stamp svc_test t0 claims_user456)
      else if js = json_bigint
        then Inr ((stamp svc_test t0 claims_bigint)
                    \<lparr>Claims.Metadata := [(''n'', AnyFloat64 9007199254740992)]\<rparr>)
      else Inl (Errorf ''json: text outside the sample''))"

definition go_sample :: stdlib where
  "go_sample = \<lparr>hmac_sha256 = sample_hmac_sha256, json_Marshal = sample_json_Marshal,
                 json_Unmarshal = sample_json_Unmarshal\<rparr>"

definition signature_user123 :: string where
  "signature_user123 = ''wmEUuaRa13nAAIAaLKtQ0JzekJlUnHtEJZMegIsh9dk''"

definition signature_user456 :: string where
  "signature_user456 = ''5VELrM7pVyODtZmjCqHINaz1l4apHoAs75xK2_2LehQ''"

definition signature_bigint :: string where
  "signature_bigint = ''13kOeh8dGLnOwaHLfNge_JB_HM5Ow08i15Icmcw1Hcw''"

text \<open>The tokens \<^verbatim>\<open>Generate\<close> returns for the sample claims at time \<open>t0\<close>.\<close>

definition tok_user123 :: Token where
  "tok_user123 =
     \<lparr>Value = message_user123 @ ''.'' @ signature_user123, Type = ''access'',
      Token.ExpiresAt = t0 + 900000000000, Token.IssuedAt = t0, Claims = []\<rparr>"

definition tok_user456 :: Token where
  "tok_user456 =
     \<lparr>Value = message_user456 @ ''.'' @ signature_user456, Type = ''access'',
      Token.ExpiresAt = t0 + 900000000000, Token.IssuedAt = t0, Claims = []\<rparr>"

definition tok_bigint :: Token where
  "tok_bigint =
     \<lparr>Value = message_bigint @ ''.'' @ signature_bigint, Type = ''access'',
      Token.ExpiresAt = t0 + 900000000000, Token.IssuedAt = t0, Claims = []\<rparr>"

text \<open>The signature of the first token with the lowest bit of its last byte flipped.\<close>

definition signature_forged :: string where
  "signature_forged = ''wmEUuaRa13nAAIAaLKtQ0JzekJlUnHtEJZMegIsh9dj''"

text \<open>
  Two sessions as in the repository's test of \<^verbatim>\<open>DeleteExpired\<close>: one expired an hour
  before \<open>t0\<close>, one expiring an hour after.
\<close>

definition sess_expired :: Session where
  "sess_expired =
     \<lparr>Session.ID = ''sess-expired'', UserID = ''user-expired'', ServiceID = ''service-expired'',
      Data = [], CreatedAt = t0 - 7200000000000, ExpiresAt = t0 - 3600000000000,
      UpdatedAt = t0 - 7200000000000\<rparr>"

definition sess_valid :: Session where
  "sess_valid =
     \<lparr>Session.ID = ''sess-valid'', UserID = ''user-valid'', ServiceID = ''service-valid'',
      Data = [(''theme'', AnyString ''dark'')], CreatedAt = t0 - 60000000000,
      ExpiresAt = t0 + 3600000000000, UpdatedAt = t0 - 60000000000\<rparr>"

definition sessions_sample :: session_Service where
  "sessions_sample =
     \<lparr>session_Service.repo = [(''sess-expired'', sess_expired), (''sess-valid'', sess_valid)],
      defaultTTL = 3600000000000, cleanupPeriod = 600000000000, logger = []\<rparr>"

text \<open>
  A registry with a monitor interval of thirty seconds and three records at time \<open>t0\<close>:
  a healthy one whose last heartbeat is exactly sixty seconds old, an unhealthy one
  whose last heartbeat is one second old, and one of unknown status that has a
  health-check URL.
\<close>

definition svc_payment :: Service where
  "svc_payment =
     \<lparr>ID = ''svc-1'', Name = ''payments'', Version = ''1.0.0'',
      Endpoints = [''http://10.0.0.1:8080''], Capabilities = [''payment''], Metadata = [],
      Status = ''healthy'', RegisteredAt = t0 - 60000000000,
      LastHeartbeat = t0 - 60000000000, HealthCheckURL = []\<rparr>"

definition svc_refund :: Service where
  "svc_refund =
     \<lparr>ID = ''svc-2'', Name = ''refunds'', Version = ''1.0.0'',
      Endpoints = [''http://10.0.0.2:8080''], Capabilities = [''refund''], Metadata = [],
      Status = ''unhealthy'', RegisteredAt = t0 - 600000000000,
      LastHeartbeat = t0 - 1000000000, HealthCheckURL = []\<rparr>"

definition svc_seeded :: Service where
  "svc_seeded =
     \<lparr>ID = ''svc-3'', Name = ''ledger'', Version = ''0.9.0'',
      Endpoints = [''http://10.0.0.3:8080''], Capabilities = [''payment''], Metadata = [],
      Status = ''unknown'', RegisteredAt = t0, LastHeartbeat = t0,
      HealthCheckURL = ''http://10.0.0.3:8080/health''\<rparr>"

definition registry_sample :: registry_Service where
  "registry_sample =
     \<lparr>repo = [(''svc-1'', svc_payment), (''svc-2'', svc_refund), (''svc-3'', svc_seeded)],
      healthCheckInterval = 30000000000, healthCheckTimeout = 5000000000, logger = []\<rparr>"

section \<open>Facts about the standard-library models\<close>

lemma Split_no_sep: "sep \<notin> set a \<Longrightarrow> Split a sep = [a]"
  by (induction a) auto

lemma Split_append_sep:
  "sep \<notin> set a \<Longrightarrow> Split (a @ sep # b) sep = a # Split b sep"
  by (induction a) auto

lemma Split3:
  assumes "CHR ''.'' \<notin> set h" "CHR ''.'' \<notin> set c" "CHR ''.'' \<notin> set sg"
  shows "Split ((h @ ''.'' @ c) @ ''.'' @ sg) (CHR ''.'') = [h, c, sg]"
proof -
  have "(h @ ''.'' @ c) @ ''.'' @ sg = h @ CHR ''.'' # (c @ CHR ''.'' # sg)"
    by simp
  then show ?thesis
    using assms by (simp add: Split_append_sep Split_no_sep)
qed

lemma Split4:
  assumes "CHR ''.'' \<notin> set h" "CHR ''.'' \<notin> set c" "CHR ''.'' \<notin> set u" "CHR ''.'' \<notin> set v"
  shows "Split ((h @ ''.'' @ c) @ ''.'' @ (u @ CHR ''.'' # v)) (CHR ''.'') = [h, c, u, v]"
proof -
  have "(h @ ''.'' @ c) @ ''.'' @ (u @ CHR ''.'' # v)
        = h @ CHR ''.'' # (c @ CHR ''.'' # (u @ CHR ''.'' # v))"
    by simp
  then show ?thesis
    using assms by (simp add: Split_append_sep Split_no_sep)
qed

lemma alphabet_table:
  "\<forall>v \<in> set [0..<64].
     encodeURL ! v \<noteq> CHR ''.'' \<and> encodeURL ! v \<noteq> CHR 0x0A \<and> encodeURL ! v \<noteq> CHR 0x0D
     \<and> decodeMap (encodeURL ! v) = Some v"
  by code_simp

lemma alphabet_facts:
  assumes "v < 64"
  shows "encodeURL ! v \<noteq> CHR ''.''" and "encodeURL ! v \<noteq> CHR 0x0A"
    and "encodeURL ! v \<noteq> CHR 0x0D" and "decodeMap (encodeURL ! v) = Some v"
proof -
  from assms have "v \<in> set [0..<64]" by simp
  with alphabet_table show "encodeURL ! v \<noteq> CHR ''.''" and "encodeURL ! v \<noteq> CHR 0x0A"
    and "encodeURL ! v \<noteq> CHR 0x0D" and "decodeMap (encodeURL ! v) = Some v"
    by blast+
qed

lemma sextets_less: "v \<in> set (sextets bs) \<Longrightarrow> v < 64"
  by (induction bs rule: sextets.induct) (auto simp: Let_def)

lemma EncodeToString_no_dot: "CHR ''.'' \<notin> set (EncodeToString bs)"
  unfolding EncodeToString_def using sextets_less alphabet_facts(1) by fastforce

lemma those_decodeMap:
  "\<forall>v \<in> set vs. v < 64 \<Longrightarrow> those (map decodeMap (map (\<lambda>v. encodeURL ! v) vs)) = Some vs"
  by (induction vs) (simp_all add: alphabet_facts)

lemma filter_newlines_id:
  "\<forall>v \<in> set vs. v < 64 \<Longrightarrow>
   filter (\<lambda>c. c \<noteq> CHR 0x0A \<and> c \<noteq> CHR 0x0D) (map (\<lambda>v. encodeURL ! v) vs)
     = map (\<lambda>v. encodeURL ! v) vs"
  by (induction vs) (simp_all add: alphabet_facts)

lemma digits24:
  fixes val :: nat
  assumes "val < 16777216"
  shows "(val div 262144 mod 64) * 262144 + (val div 4096 mod 64) * 4096
           + (val div 64 mod 64) * 64 + val mod 64 = val"
proof -
  have a: "val div 262144 mod 64 = val div 262144"
    using assms by (simp add: less_mult_imp_div_less)
  have b: "val mod 262144 = 4096 * (val div 4096 mod 64) + val mod 4096"
    using mod_mult2_eq [of val 4096 64] by simp
  have c: "val mod 4096 = 64 * (val div 64 mod 64) + val mod 64"
    using mod_mult2_eq [of val 64 64] by simp
  have "val = 262144 * (val div 262144) + val mod 262144"
    by simp
  with a b c show ?thesis by simp
qed

lemma bytes3:
  fixes a b c :: nat
  assumes "a < 256" "b < 256" "c < 256"
  shows "(a * 65536 + b * 256 + c) div 65536 = a"
    and "(a * 65536 + b * 256 + c) div 256 mod 256 = b"
    and "(a * 65536 + b * 256 + c) mod 256 = c"
proof -
  have "b * 256 + c < 65536" using assms by simp
  then show "(a * 65536 + b * 256 + c) div 65536 = a"
    by (simp add: add.assoc)
  have "(a * 65536 + b * 256 + c) div 256 = a * 256 + b"
    using assms by simp
  then show "(a * 65536 + b * 256 + c) div 256 mod 256 = b"
    using assms by simp
  have "a * 65536 + b * 256 + c = c + (a * 256 + b) * 256"
    by simp
  then show "(a * 65536 + b * 256 + c) mod 256 = c"
    using assms by (simp only: mod_mult_self1 mod_less)
qed


lemma quantum_val_less:
  "of_char a * 65536 + of_char b * 256 + (of_char c :: nat) < 16777216"
proof -
  have "(of_char a :: nat) < 256" "(of_char b :: nat) < 256" "(of_char c :: nat) < 256"
    by simp_all
  then show ?thesis by linarith
qed

lemma char_of_bytes:
  fixes a b c :: char
  defines "val \<equiv> of_char a * 65536 + of_char b * 256 + (of_char c :: nat)"
  shows "char_of (val div 65536) = a" and "char_of (val div 256) = b" and "char_of val = c"
proof -
  have lt: "(of_char a :: nat) < 256" "(of_char b :: nat) < 256" "(of_char c :: nat) < 256"
    by simp_all
  have "val div 65536 = of_char a"
    unfolding val_def using bytes3(1) [OF lt] .
  then show "char_of (val div 65536) = a" by simp
  have "val div 256 mod 256 = of_char b"
    unfolding val_def using bytes3(2) [OF lt] .
  then have "char_of (val div 256 mod 256) = b" by simp
  then show "char_of (val div 256) = b" by (simp only: char_of_mod_256)
  have "val mod 256 = of_char c"
    unfolding val_def using bytes3(3) [OF lt] .
  then have "char_of (val mod 256) = c" by simp
  then show "char_of val = c" by (simp only: char_of_mod_256)
qed

lemma decode_quantum3:
  fixes a b c :: char
  defines "val \<equiv> of_char a * 65536 + of_char b * 256 + (of_char c :: nat)"
  shows "decode_quanta (val div 262144 mod 64 # val div 4096 mod 64 # val div 64 mod 64 # val mod 64 # ws)
         = map_option (\<lambda>tl. a # b # c # tl) (decode_quanta ws)"
proof -
  have "val < 16777216" unfolding val_def by (rule quantum_val_less)
  then have v: "(val div 262144 mod 64) * 262144 + (val div 4096 mod 64) * 4096
           + (val div 64 mod 64) * 64 + val mod 64 = val"
    by (rule digits24)
  have cs: "char_of (val div 65536) = a" "char_of (val div 256) = b" "char_of val = c"
    unfolding val_def by (rule char_of_bytes)+
  have "decode_quanta (val div 262144 mod 64 # val div 4096 mod 64 # val div 64 mod 64 # val mod 64 # ws)
         = map_option (\<lambda>tl. [a, b, c] @ tl) (decode_quanta ws)"
    by (simp only: decode_quanta.simps Let_def v cs)
  then show ?thesis by simp
qed

lemma decode_quantum2:
  fixes a b :: char
  defines "val \<equiv> of_char a * 65536 + of_char b * 256 + (0 :: nat)"
  shows "decode_quanta [val div 262144 mod 64, val div 4096 mod 64, val div 64 mod 64] = Some [a, b]"
proof -
  have "val = of_char a * 65536 + of_char b * 256 + (of_char (CHR 0x00) :: nat)"
    unfolding val_def by simp
  note veq = this
  have "val < 16777216" unfolding veq by (rule quantum_val_less)
  then have v: "(val div 262144 mod 64) * 262144 + (val div 4096 mod 64) * 4096
           + (val div 64 mod 64) * 64 + val mod 64 = val"
    by (rule digits24)
  have "val = (of_char a * 1024 + of_char b * 4) * 64" unfolding val_def by simp
  then have "val mod 64 = 0" by (simp only: mod_mult_self2_is_0)
  with v have v': "(val div 262144 mod 64) * 262144 + (val div 4096 mod 64) * 4096
           + (val div 64 mod 64) * 64 = val" by (simp only: add_0_right)
  have cs: "char_of (val div 65536) = a" "char_of (val div 256) = b"
    unfolding veq by (rule char_of_bytes)+
  show ?thesis
    by (simp only: decode_quanta.simps Let_def v' cs)
qed

lemma decode_quantum1:
  fixes a :: char
  defines "val \<equiv> of_char a * 65536 + (0 :: nat) * 256 + (0 :: nat)"
  shows "decode_quanta [val div 262144 mod 64, val div 4096 mod 64] = Some [a]"
proof -
  have veq: "val = of_char a * 65536 + of_char (CHR 0x00) * 256 + (of_char (CHR 0x00) :: nat)"
    unfolding val_def by simp
  have "val < 16777216" unfolding veq by (rule quantum_val_less)
  then have v: "(val div 262144 mod 64) * 262144 + (val div 4096 mod 64) * 4096
           + (val div 64 mod 64) * 64 + val mod 64 = val"
    by (rule digits24)
  have "val = (of_char a * 1024) * 64" unfolding val_def by simp
  then have m: "val mod 64 = 0" by (simp only: mod_mult_self2_is_0)
  have "val div 64 = (of_char a * 16) * 64" unfolding val_def by simp
  then have "val div 64 mod 64 = 0" by (simp only: mod_mult_self2_is_0)
  with v m have v': "(val div 262144 mod 64) * 262144 + (val div 4096 mod 64) * 4096 = val"
    by (simp only: mult_zero_left add_0_right)
  have cs: "char_of (val div 65536) = a"
    unfolding veq by (rule char_of_bytes)
  show ?thesis
    by (simp only: decode_quanta.simps Let_def v' cs)
qed

lemma decode_quanta_sextets: "decode_quanta (sextets bs) = Some bs"
proof (induction bs rule: sextets.induct)
  case (1 a b c rest)
  show ?case
    using decode_quantum3 [of a b c "sextets rest"] "1.IH"
    by (simp add: Let_def)
next
  case (2 a b)
  show ?case using decode_quantum2 [of a b] by (simp add: Let_def)
next
  case (3 a)
  show ?case using decode_quantum1 [of a] by (simp add: Let_def)
next
  case 4
  show ?case by simp
qed


lemma DecodeString_EncodeToString: "DecodeString (EncodeToString bs) = Some bs"
proof -
  have lt: "\<forall>v \<in> set (sextets bs). v < 64"
    using sextets_less by blast
  show ?thesis
    unfolding DecodeString_def EncodeToString_def
    by (simp only: filter_newlines_id [OF lt] those_decodeMap [OF lt] option.case
          decode_quanta_sextets)
qed

section \<open>The token service\<close>

subsection \<open>How \<^verbatim>\<open>Generate\<close> and \<^verbatim>\<open>Validate\<close> run\<close>

lemma sign_no_dot: "CHR ''.'' \<notin> set (sign L s m)"
  unfolding sign_def by (rule EncodeToString_no_dot)

lemma Validate_three:
  assumes "Split tokenString (CHR ''.'') = [h, c, sg]"
  shows "Validate L s now tokenString =
     (if sg \<noteq> sign L s (h @ ''.'' @ c) then Inl (Errorf ''invalid signature'')
      else case DecodeString c of
             None \<Rightarrow> Inl (Wrapf ''decode claims'' CorruptInputError)
           | Some js \<Rightarrow>
               (case json_Unmarshal L js of
                  Inl err \<Rightarrow> Inl (Wrapf ''unmarshal claims'' err)
                | Inr claims \<Rightarrow>
                    if Time_After now (Claims.ExpiresAt claims) then Inl (Errorf ''token expired'')
                    else Inr claims))"
  unfolding Validate_def using assms
  by (simp add: Let_def hmac_Equal_def)

lemma Validate_four:
  assumes "Split tokenString (CHR ''.'') = [h, c, u, v]"
  shows "Validate L s now tokenString = Inl (Errorf ''invalid token format'')"
  unfolding Validate_def using assms by simp

lemma Generate_Inr:
  assumes "json_Marshal L (stamp s now C) = Inr js"
  shows "Generate L s now C =
     Inr \<lparr>Value = (EncodeToString headerJSON @ ''.'' @ EncodeToString js) @ ''.'' @
                    sign L s (EncodeToString headerJSON @ ''.'' @ EncodeToString js),
          Type = TypeAccess,
          Token.ExpiresAt = Time_Add now (AccessTokenTTL (config s)),
          Token.IssuedAt = now, Claims = []\<rparr>"
  unfolding Generate_def using assms by (simp add: Let_def)

lemma Generate_Inl:
  assumes "json_Marshal L (stamp s now C) = Inl err"
  shows "Generate L s now C = Inl (Wrapf ''marshal claims'' err)"
  unfolding Generate_def using assms by (simp add: Let_def)

lemma Generate_Value:
  assumes "Generate L s now C = Inr tok"
  obtains js where "json_Marshal L (stamp s now C) = Inr js"
    and "Value tok = (EncodeToString headerJSON @ ''.'' @ EncodeToString js) @ ''.'' @
                    sign L s (EncodeToString headerJSON @ ''.'' @ EncodeToString js)"
proof (cases "json_Marshal L (stamp s now C)")
  case (Inl err)
  with assms Generate_Inl [OF Inl] show ?thesis by simp
next
  case (Inr js)
  from assms Generate_Inr [OF Inr] have
    "Value tok = (EncodeToString headerJSON @ ''.'' @ EncodeToString js) @ ''.'' @
                    sign L s (EncodeToString headerJSON @ ''.'' @ EncodeToString js)"
    by auto
  with Inr that show ?thesis by blast
qed

lemma Split_generated:
  "Split ((EncodeToString hj @ ''.'' @ EncodeToString js) @ ''.'' @ sign L s m) (CHR ''.'')
     = [EncodeToString hj, EncodeToString js, sign L s m]"
  by (rule Split3) (rule EncodeToString_no_dot EncodeToString_no_dot sign_no_dot)+

lemma signature_offset_generated:
  "signature_offset ((EncodeToString hj @ ''.'' @ EncodeToString js) @ ''.'' @ sign L s m)
     = length (EncodeToString hj @ ''.'' @ EncodeToString js) + 1"
  unfolding signature_offset_def Split_generated by simp

lemma Validate_altered_byte:
  assumes dots: "CHR ''.'' \<notin> set h" "CHR ''.'' \<notin> set c" "CHR ''.'' \<notin> set sg"
    and sg: "sg = sign L s (h @ ''.'' @ c)"
    and j: "j < length sg" and b: "b \<noteq> sg ! j"
  shows "Validate L s now ((h @ ''.'' @ c) @ ''.'' @ sg[j := b]) =
           Inl (Errorf (if b = CHR ''.'' then ''invalid token format'' else ''invalid signature''))"
proof (cases "b = CHR ''.''")
  case True
  have u: "CHR ''.'' \<notin> set (take j sg)" and v: "CHR ''.'' \<notin> set (drop (Suc j) sg)"
    using dots(3) by (auto dest: in_set_takeD in_set_dropD)
  have "sg[j := b] = take j sg @ CHR ''.'' # drop (Suc j) sg"
    using j True by (simp add: upd_conv_take_nth_drop)
  then have "Split ((h @ ''.'' @ c) @ ''.'' @ sg[j := b]) (CHR ''.'')
               = [h, c, take j sg, drop (Suc j) sg]"
    using Split4 [OF dots(1,2) u v] by simp
  from Validate_four [OF this] True show ?thesis by simp
next
  case False
  have "set (sg[j := b]) \<subseteq> insert b (set sg)"
    by (rule set_update_subset_insert)
  with False dots(3) have "CHR ''.'' \<notin> set (sg[j := b])" by auto
  from Split3 [OF dots(1,2) this]
  have v: "Validate L s now ((h @ ''.'' @ c) @ ''.'' @ sg[j := b]) =
     (if sg[j := b] \<noteq> sign L s (h @ ''.'' @ c) then Inl (Errorf ''invalid signature'')
      else case DecodeString c of
             None \<Rightarrow> Inl (Wrapf ''decode claims'' CorruptInputError)
           | Some js \<Rightarrow>
               (case json_Unmarshal L js of
                  Inl err \<Rightarrow> Inl (Wrapf ''unmarshal claims'' err)
                | Inr claims \<Rightarrow>
                    if Time_After now (Claims.ExpiresAt claims) then Inl (Errorf ''token expired'')
                    else Inr claims))"
    by (rule Validate_three)
  have "sg[j := b] ! j = b" using j by simp
  with b have "sg[j := b] \<noteq> sg" by metis
  with v sg False show ?thesis by simp
qed

subsection \<open>The sample values\<close>

text \<open>
  The sample messages are the base64url encodings of the header and of the sample JSON
  texts, and the sample signatures are the encodings of the sample MACs.
\<close>

lemma sample_message123:
  "EncodeToString headerJSON @ ''.'' @ EncodeToString json_user123 = message_user123"
  by (simp add: EncodeToString_def headerJSON_def encodeURL_def Let_def json_user123_def
        message_user123_def)

lemma sample_message456:
  "EncodeToString headerJSON @ ''.'' @ EncodeToString json_user456 = message_user456"
  by (simp add: EncodeToString_def headerJSON_def encodeURL_def Let_def json_user456_def
        message_user456_def)

lemma sample_sign123: "sign go_sample svc_test message_user123 = signature_user123"
  by (simp add: sign_def go_sample_def svc_test_def cfg_test_def sample_hmac_sha256_def
        EncodeToString_def mac_user123_def encodeURL_def Let_def signature_user123_def)

lemma sample_sign456:
  "sign go_sample svc_test message_user456 = signature_user456"
  by (simp add: sign_def go_sample_def svc_test_def cfg_test_def sample_hmac_sha256_def
        EncodeToString_def mac_user456_def encodeURL_def Let_def
        message_user123_def message_user456_def signature_user456_def)

lemma sample_Marshal123:
  "json_Marshal go_sample (stamp svc_test t0 claims_user123) = Inr json_user123"
  by (simp add: go_sample_def sample_json_Marshal_def holds_chan_def stamp_def
        claims_user123_def)

lemma sample_Unmarshal123:
  "json_Unmarshal go_sample json_user123 = Inr (stamp svc_test t0 claims_user123)"
  by (simp add: go_sample_def sample_json_Unmarshal_def)

lemma sample_differ: "stamp svc_test t0 claims_user456 \<noteq> stamp svc_test t0 claims_user123"
  by (simp add: stamp_def claims_user123_def claims_user456_def)

lemma sample_Marshal456:
  "json_Marshal go_sample (stamp svc_test t0 claims_user456) = Inr json_user456"
  using sample_differ
  by (simp add: go_sample_def sample_json_Marshal_def holds_chan_def)
     (simp add: stamp_def claims_user456_def)

lemma sample_Unmarshal456:
  "json_Unmarshal go_sample json_user456 = Inr (stamp svc_test t0 claims_user456)"
  by (simp add: go_sample_def sample_json_Unmarshal_def json_user123_def json_user456_def)

lemma sample_Generate123: "Generate go_sample svc_test t0 claims_user123 = Inr tok_user123"
  unfolding Generate_Inr [OF sample_Marshal123] sample_message123 sample_sign123
  by (simp add: tok_user123_def TypeAccess_def Time_Add_def svc_test_def cfg_test_def)

lemma sample_Generate456: "Generate go_sample svc_test t0 claims_user456 = Inr tok_user456"
  unfolding Generate_Inr [OF sample_Marshal456] sample_message456 sample_sign456
  by (simp add: tok_user456_def TypeAccess_def Time_Add_def svc_test_def cfg_test_def)

lemma sample_Split123:
  "Split (Value tok_user123) (CHR ''.'')
     = [EncodeToString headerJSON, EncodeToString json_user123, signature_user123]"
proof -
  have "Split ((EncodeToString headerJSON @ ''.'' @ EncodeToString json_user123) @ ''.'' @
           sign go_sample svc_test (EncodeToString headerJSON @ ''.'' @ EncodeToString json_user123))
         (CHR ''.'')
        = [EncodeToString headerJSON, EncodeToString json_user123,
           sign go_sample svc_test (EncodeToString headerJSON @ ''.'' @ EncodeToString json_user123)]"
    by (rule Split_generated)
  then show ?thesis
    unfolding sample_message123 sample_sign123 by (simp add: tok_user123_def)
qed

lemma sample_Split456:
  "Split (Value tok_user456) (CHR ''.'')
     = [EncodeToString headerJSON, EncodeToString json_user456,
        sign go_sample svc_test (EncodeToString headerJSON @ ''.'' @ EncodeToString json_user456)]"
proof -
  have "Value tok_user456 =
     (EncodeToString headerJSON @ ''.'' @ EncodeToString json_user456) @ ''.'' @
       sign go_sample svc_test (EncodeToString headerJSON @ ''.'' @ EncodeToString json_user456)"
    unfolding sample_message456 sample_sign456 by (simp add: tok_user456_def)
  then show ?thesis by (simp only: Split_generated)
qed

lemma sample_Split_forged:
  "Split (message_user123 @ ''.'' @ signature_forged) (CHR ''.'')
     = [EncodeToString headerJSON, EncodeToString json_user123, signature_forged]"
proof -
  have "CHR ''.'' \<notin> set signature_forged" by (simp add: signature_forged_def)
  from Split3 [OF EncodeToString_no_dot EncodeToString_no_dot this,
      of headerJSON json_user123]
  show ?thesis unfolding sample_message123 .
qed

lemma sample_len: "length message_user123 = 228"
  by (simp add: message_user123_def)

lemma sample_offset: "signature_offset (Value tok_user123) = 229"
  unfolding signature_offset_def sample_Split123
  by (simp add: tok_user123_def sample_len signature_user123_def)

lemma sample_nth: "Value tok_user123 ! 239 = CHR ''n''"
  by (simp add: tok_user123_def nth_append sample_len signature_user123_def)

lemma sample_upd:
  "(Value tok_user123)[239 := b] =
     (EncodeToString headerJSON @ ''.'' @ EncodeToString json_user123) @ ''.'' @ signature_user123[10 := b]"
  unfolding sample_message123
  by (simp add: tok_user123_def list_update_append sample_len)

lemma sample_message_bigint:
  "EncodeToString headerJSON @ ''.'' @ EncodeToString json_bigint = message_bigint"
  by (simp add: EncodeToString_def headerJSON_def encodeURL_def Let_def json_bigint_def
        message_bigint_def)

lemma sample_sign_bigint: "sign go_sample svc_test message_bigint = signature_bigint"
  by (simp add: sign_def go_sample_def svc_test_def cfg_test_def sample_hmac_sha256_def
        EncodeToString_def mac_bigint_def encodeURL_def Let_def
        message_user123_def message_user456_def message_bigint_def signature_bigint_def)

lemma sample_differ_bigint:
  "stamp svc_test t0 claims_bigint \<noteq> stamp svc_test t0 claims_user123"
  "stamp svc_test t0 claims_bigint \<noteq> stamp svc_test t0 claims_user456"
  by (simp_all add: stamp_def claims_user123_def claims_user456_def claims_bigint_def)

lemma sample_Marshal_bigint:
  "json_Marshal go_sample (stamp svc_test t0 claims_bigint) = Inr json_bigint"
  using sample_differ_bigint
  by (simp add: go_sample_def sample_json_Marshal_def holds_chan_def)
     (simp add: stamp_def claims_bigint_def)

lemma sample_Unmarshal_bigint:
  "json_Unmarshal go_sample json_bigint
     = Inr ((stamp svc_test t0 claims_bigint)
              \<lparr>Claims.Metadata := [(''n'', AnyFloat64 9007199254740992)]\<rparr>)"
  by (simp add: go_sample_def sample_json_Unmarshal_def json_user123_def json_user456_def
        json_bigint_def)

lemma sample_Generate_bigint: "Generate go_sample svc_test t0 claims_bigint = Inr tok_bigint"
  unfolding Generate_Inr [OF sample_Marshal_bigint] sample_message_bigint sample_sign_bigint
  by (simp add: tok_bigint_def TypeAccess_def Time_Add_def svc_test_def cfg_test_def)

lemma sample_Split_bigint:
  "Split (Value tok_bigint) (CHR ''.'')
     = [EncodeToString headerJSON, EncodeToString json_bigint,
        sign go_sample svc_test (EncodeToString headerJSON @ ''.'' @ EncodeToString json_bigint)]"
proof -
  have "Value tok_bigint =
     (EncodeToString headerJSON @ ''.'' @ EncodeToString json_bigint) @ ''.'' @
       sign go_sample svc_test (EncodeToString headerJSON @ ''.'' @ EncodeToString json_bigint)"
    unfolding sample_message_bigint sample_sign_bigint by (simp add: tok_bigint_def)
  then show ?thesis by (simp only: Split_generated)
qed

text \<open>What \<^verbatim>\<open>Validate\<close> returns on a generated token, whatever the JSON decoder does.\<close>

lemma Validate_generated:
  "Validate L s now'
     ((EncodeToString headerJSON @ ''.'' @ EncodeToString js) @ ''.'' @
        sign L s (EncodeToString headerJSON @ ''.'' @ EncodeToString js))
   = (case json_Unmarshal L js of
        Inl err \<Rightarrow> Inl (Wrapf ''unmarshal claims'' err)
      | Inr claims \<Rightarrow>
          if Time_After now' (Claims.ExpiresAt claims) then Inl (Errorf ''token expired'')
          else Inr claims)"
  unfolding Validate_three [OF Split_generated]
  by (simp add: DecodeString_EncodeToString)

subsection \<open>Round trip\<close>

text \<open>
  Claim C1, as stated, fails in two ways.  A claims value that \<^verbatim>\<open>json.Marshal\<close> accepts
  need not come back unchanged: the \<^verbatim>\<open>int64\<close> \<open>2\<^sup>5\<^sup>3 + 1\<close> in the metadata of the third
  sample claims is returned by \<^verbatim>\<open>Validate\<close> as the \<^verbatim>\<open>float64\<close> \<open>2\<^sup>5\<^sup>3\<close>, a minute after the
  token was generated.  And \<^verbatim>\<open>Validate\<close> does not succeed on a generated token at every
  time: sixteen minutes after the first sample token was generated with a lifetime of
  fifteen, it returns \<^verbatim>\<open>token expired\<close>.
\<close>

theorem roundtrip_counterexample:
  "Generate go_sample svc_test t0 claims_bigint = Inr tok_bigint
   \<and> Claims.Metadata claims_bigint = [(''n'', AnyInt 9007199254740993)]
   \<and> Validate go_sample svc_test (t0 + 60000000000) (Value tok_bigint)
       = Inr ((stamp svc_test t0 claims_bigint)
                \<lparr>Claims.Metadata := [(''n'', AnyFloat64 9007199254740992)]\<rparr>)
   \<and> Generate go_sample svc_test t0 claims_user123 = Inr tok_user123
   \<and> Validate go_sample svc_test (t0 + 960000000000) (Value tok_user123)
       = Inl (Errorf ''token expired'')"
proof -
  have e: "Claims.ExpiresAt ((stamp svc_test t0 claims_bigint)
                \<lparr>Claims.Metadata := [(''n'', AnyFloat64 9007199254740992)]\<rparr>)
             = t0 + 900000000000"
    "Claims.ExpiresAt (stamp svc_test t0 claims_user123) = t0 + 900000000000"
    by (simp_all add: stamp_def Time_Add_def svc_test_def cfg_test_def)
  have a: "Validate go_sample svc_test (t0 + 60000000000) (Value tok_bigint)
       = Inr ((stamp svc_test t0 claims_bigint)
                \<lparr>Claims.Metadata := [(''n'', AnyFloat64 9007199254740992)]\<rparr>)"
    unfolding Validate_three [OF sample_Split_bigint]
    by (simp add: DecodeString_EncodeToString sample_Unmarshal_bigint Time_After_def e)
  have sg: "sign go_sample svc_test
              (EncodeToString headerJSON @ ''.'' @ EncodeToString json_user123)
            = signature_user123"
    unfolding sample_message123 sample_sign123 ..
  have b: "Validate go_sample svc_test (t0 + 960000000000) (Value tok_user123)
       = Inl (Errorf ''token expired'')"
    unfolding Validate_three [OF sample_Split123] sg
    by (simp add: DecodeString_EncodeToString sample_Unmarshal123 Time_After_def e)
  have m: "Claims.Metadata claims_bigint = [(''n'', AnyInt 9007199254740993)]"
    by (simp add: claims_bigint_def)
  from a b m show ?thesis
    by (simp add: sample_Generate_bigint sample_Generate123)
qed

text \<open>
  Claim C1, amended.  For every claims value \<open>C\<close> that \<^verbatim>\<open>json.Marshal\<close> accepts once
  stamped, \<^verbatim>\<open>Generate\<close> returns a token, and \<^verbatim>\<open>Validate\<close> on its value, at any time \<open>now'\<close>,
  passes the format and signature checks and decodes the claims segment; it returns
  the error of \<^verbatim>\<open>json.Unmarshal\<close> if that fails on the marshalled text, \<^verbatim>\<open>token expired\<close> if
  \<open>now'\<close> is after the expires-at of the claims \<^verbatim>\<open>json.Unmarshal\<close> recovers, and exactly
  those recovered claims otherwise.  Hence, whenever \<^verbatim>\<open>json.Unmarshal\<close> recovers the
  stamped claims from their JSON text and \<open>now'\<close> is not after the stamped expiry,
  \<^verbatim>\<open>Validate\<close> returns \<open>C\<close> with only issuer, issued-at and expires-at replaced by the
  configured issuer, the time \<open>now\<close> of generation and \<open>now\<close> plus the access-token
  lifetime.
\<close>

theorem Validate_Generate_roundtrip:
  assumes "json_Marshal L (stamp s now C) = Inr js"
  shows "\<exists>tok. Generate L s now C = Inr tok
         \<and> Validate L s now' (Value tok) =
             (case json_Unmarshal L js of
                Inl err \<Rightarrow> Inl (Wrapf ''unmarshal claims'' err)
              | Inr claims \<Rightarrow>
                  if Time_After now' (Claims.ExpiresAt claims) then Inl (Errorf ''token expired'')
                  else Inr claims)
         \<and> (json_Unmarshal L js = Inr (stamp s now C) \<longrightarrow>
              now' \<le> Time_Add now (AccessTokenTTL (config s)) \<longrightarrow>
              Validate L s now' (Value tok) =
                Inr (C\<lparr>Claims.Issuer := Config.Issuer (config s),
                       Claims.IssuedAt := now,
                       Claims.ExpiresAt := Time_Add now (AccessTokenTTL (config s))\<rparr>))"
proof -
  let ?m = "EncodeToString headerJSON @ ''.'' @ EncodeToString js"
  let ?v = "?m @ ''.'' @ sign L s ?m"
  let ?tok = "\<lparr>Value = ?v, Type = TypeAccess,
          Token.ExpiresAt = Time_Add now (AccessTokenTTL (config s)),
          Token.IssuedAt = now, Claims = []\<rparr>"
  have g: "Generate L s now C = Inr ?tok"
    by (rule Generate_Inr [OF assms])
  have v: "Validate L s now' ?v =
             (case json_Unmarshal L js of
                Inl err \<Rightarrow> Inl (Wrapf ''unmarshal claims'' err)
              | Inr claims \<Rightarrow>
                  if Time_After now' (Claims.ExpiresAt claims) then Inl (Errorf ''token expired'')
                  else Inr claims)"
    by (rule Validate_generated)
  have r: "Validate L s now' ?v =
                Inr (C\<lparr>Claims.Issuer := Config.Issuer (config s),
                       Claims.IssuedAt := now,
                       Claims.ExpiresAt := Time_Add now (AccessTokenTTL (config s))\<rparr>)"
    if "json_Unmarshal L js = Inr (stamp s now C)"
      and "now' \<le> Time_Add now (AccessTokenTTL (config s))"
    unfolding v using that by (simp add: stamp_def Time_After_def)
  have val: "Value ?tok = ?v" by simp
  show ?thesis
  proof (rule exI [of _ ?tok], unfold val, intro conjI impI)
    show "Generate L s now C = Inr ?tok" by (rule g)
  next
    show "Validate L s now' ?v =
             (case json_Unmarshal L js of
                Inl err \<Rightarrow> Inl (Wrapf ''unmarshal claims'' err)
              | Inr claims \<Rightarrow>
                  if Time_After now' (Claims.ExpiresAt claims) then Inl (Errorf ''token expired'')
                  else Inr claims)"
      by (rule v)
  next
    assume "json_Unmarshal L js = Inr (stamp s now C)"
      and "now' \<le> Time_Add now (AccessTokenTTL (config s))"
    then show "Validate L s now' ?v =
                Inr (C\<lparr>Claims.Issuer := Config.Issuer (config s),
                       Claims.IssuedAt := now,
                       Claims.ExpiresAt := Time_Add now (AccessTokenTTL (config s))\<rparr>)"
      by (rule r)
  qed
qed

theorem Validate_Generate_roundtrip_witness:
  "Generate go_sample svc_test t0 claims_user123 = Inr tok_user123 \<and>
   Validate go_sample svc_test (t0 + 60000000000) (Value tok_user123) =
     Inr (claims_user123\<lparr>Claims.Issuer := ''root-server'', Claims.IssuedAt := t0,
            Claims.ExpiresAt := t0 + 900000000000\<rparr>)"
proof -
  have ttl: "t0 + 60000000000 \<le> Time_Add t0 (AccessTokenTTL (config svc_test))"
    by (simp add: Time_Add_def svc_test_def cfg_test_def)
  have iss: "Config.Issuer (config svc_test) = ''root-server''"
    and exp: "Time_Add t0 (AccessTokenTTL (config svc_test)) = t0 + 900000000000"
    by (simp_all add: Time_Add_def svc_test_def cfg_test_def)
  from Validate_Generate_roundtrip [OF sample_Marshal123, of "t0 + 60000000000"]
  have "Validate go_sample svc_test (t0 + 60000000000) (Value tok_user123) =
          Inr (claims_user123\<lparr>Claims.Issuer := Config.Issuer (config svc_test),
                 Claims.IssuedAt := t0,
                 Claims.ExpiresAt := Time_Add t0 (AccessTokenTTL (config svc_test))\<rparr>)"
    unfolding sample_Generate123 using sample_Unmarshal123 ttl by auto
  then show ?thesis
    unfolding iss exp by (simp add: sample_Generate123)
qed

subsection \<open>Expiry and signature\<close>

text \<open>
  Claim C2, as stated, fails: the signature is compared before the claims are decoded,
  so a token whose claims are expired and whose signature segment does not match is
  rejected with \<^verbatim>\<open>invalid signature\<close>, not \<^verbatim>\<open>token expired\<close>.  The counterexample is the first
  sample token with one bit of its signature flipped, sixteen minutes after it was
  issued with a lifetime of fifteen.
\<close>

theorem Validate_expired_counterexample:
  "Split (message_user123 @ ''.'' @ signature_forged) (CHR ''.'')
     = [EncodeToString headerJSON, EncodeToString json_user123, signature_forged] \<and>
   DecodeString (EncodeToString json_user123) = Some json_user123 \<and>
   json_Unmarshal go_sample json_user123 = Inr (stamp svc_test t0 claims_user123) \<and>
   Claims.ExpiresAt (stamp svc_test t0 claims_user123) < t0 + 960000000000 \<and>
   Validate go_sample svc_test (t0 + 960000000000) (message_user123 @ ''.'' @ signature_forged)
     = Inl (Errorf ''invalid signature'')"
proof -
  have "signature_forged \<noteq>
      sign go_sample svc_test (EncodeToString headerJSON @ ''.'' @ EncodeToString json_user123)"
    unfolding sample_message123 sample_sign123
    by (simp add: signature_forged_def signature_user123_def)
  then have "Validate go_sample svc_test (t0 + 960000000000)
       (message_user123 @ ''.'' @ signature_forged) = Inl (Errorf ''invalid signature'')"
    unfolding Validate_three [OF sample_Split_forged] by simp
  moreover have "Claims.ExpiresAt (stamp svc_test t0 claims_user123) < t0 + 960000000000"
    by (simp add: stamp_def Time_Add_def svc_test_def cfg_test_def)
  ultimately show ?thesis
    using sample_Split_forged DecodeString_EncodeToString sample_Unmarshal123 by simp
qed

text \<open>
  Claim C2, amended.  For every token string of three segments whose claims segment
  decodes to claims with expires-at before \<open>now\<close>: \<^verbatim>\<open>Validate\<close> returns \<^verbatim>\<open>token expired\<close> when
  the signature segment is the HMAC of the first two segments, and \<^verbatim>\<open>invalid signature\<close>
  when it is not.
\<close>

theorem Validate_expired_or_forged:
  assumes "Split tokenString (CHR ''.'') = [h, c, sg]"
    and "DecodeString c = Some js"
    and "json_Unmarshal L js = Inr claims"
    and "Claims.ExpiresAt claims < now"
  shows "Validate L s now tokenString =
           (if sg = sign L s (h @ ''.'' @ c) then Inl (Errorf ''token expired'')
            else Inl (Errorf ''invalid signature''))"
  unfolding Validate_three [OF assms(1)] using assms(2-4)
  by (simp add: Time_After_def)

theorem Validate_expired_or_forged_witness:
  "Validate go_sample svc_test (t0 + 960000000000) (Value tok_user123)
     = Inl (Errorf ''token expired'')"
proof -
  have "Claims.ExpiresAt (stamp svc_test t0 claims_user123) < t0 + 960000000000"
    by (simp add: stamp_def Time_Add_def svc_test_def cfg_test_def)
  from Validate_expired_or_forged [OF sample_Split123 DecodeString_EncodeToString
      sample_Unmarshal123 this, of svc_test]
  show ?thesis
    unfolding sample_message123 sample_sign123 by simp
qed

text \<open>
  Claim C3, as stated, fails: when the changed byte becomes the separator \<^verbatim>\<open>.\<close>, the
  token has four segments and \<^verbatim>\<open>Validate\<close> returns \<^verbatim>\<open>invalid token format\<close>.  A single bit
  flip can do it: byte 239 of the first sample token is the letter n (\<open>0x6E\<close>) of its
  signature, and flipping bit \<open>0x40\<close> gives \<open>0x2E\<close>, the separator.
\<close>

theorem altered_signature_counterexample:
  "Generate go_sample svc_test t0 claims_user123 = Inr tok_user123 \<and>
   signature_offset (Value tok_user123) \<le> 239 \<and> 239 < length (Value tok_user123) \<and>
   Value tok_user123 ! 239 = CHR ''n'' \<and>
   Validate go_sample svc_test t0 ((Value tok_user123)[239 := CHR ''.''])
     = Inl (Errorf ''invalid token format'')"
proof -
  have sg: "signature_user123 =
      sign go_sample svc_test (EncodeToString headerJSON @ ''.'' @ EncodeToString json_user123)"
    unfolding sample_message123 sample_sign123 ..
  have nd: "CHR ''.'' \<notin> set signature_user123"
    unfolding sg by (rule sign_no_dot)
  have "Validate go_sample svc_test t0 ((Value tok_user123)[239 := CHR ''.''])
     = Inl (Errorf ''invalid token format'')"
    unfolding sample_upd
    using Validate_altered_byte [OF EncodeToString_no_dot EncodeToString_no_dot nd sg,
        of 10 "CHR ''.''" t0]
    by (simp add: signature_user123_def)
  then show ?thesis
    by (simp add: sample_Generate123 sample_offset sample_nth)
       (simp add: tok_user123_def sample_len signature_user123_def)
qed

text \<open>
  Claim C3, amended.  For every token produced by \<^verbatim>\<open>Generate\<close>, changing one byte of the
  signature segment to any other byte makes \<^verbatim>\<open>Validate\<close> (at any time) return
  \<^verbatim>\<open>invalid signature\<close>, except that changing it to the separator \<^verbatim>\<open>.\<close> returns
  \<^verbatim>\<open>invalid token format\<close>.
\<close>

theorem altered_signature_rejected:
  assumes gen: "Generate L s now C = Inr tok"
    and lo: "signature_offset (Value tok) \<le> i" and hi: "i < length (Value tok)"
    and b: "b \<noteq> Value tok ! i"
  shows "Validate L s now' ((Value tok)[i := b]) =
           Inl (Errorf (if b = CHR ''.'' then ''invalid token format'' else ''invalid signature''))"
proof -
  from gen obtain js where
    val: "Value tok = (EncodeToString headerJSON @ ''.'' @ EncodeToString js) @ ''.'' @
                    sign L s (EncodeToString headerJSON @ ''.'' @ EncodeToString js)"
    by (rule Generate_Value)
  let ?h = "EncodeToString headerJSON" and ?c = "EncodeToString js"
  let ?m = "?h @ ''.'' @ ?c"
  let ?sg = "sign L s ?m"
  have off: "signature_offset (Value tok) = length ?m + 1"
    unfolding val by (rule signature_offset_generated)
  define j where "j = i - (length ?m + 1)"
  have i: "i = length (?m @ ''.'') + j" using lo off j_def by simp
  have j: "j < length ?sg" using hi i val by simp
  have upd: "(Value tok)[i := b] = ?m @ ''.'' @ ?sg[j := b]"
  proof -
    have "((?m @ ''.'') @ ?sg)[length (?m @ ''.'') + j := b] = (?m @ ''.'') @ ?sg[j := b]"
      by (simp only: list_update_append) simp
    then show ?thesis unfolding val i by simp
  qed
  have nth: "Value tok ! i = ?sg ! j"
  proof -
    have "((?m @ ''.'') @ ?sg) ! (length (?m @ ''.'') + j) = ?sg ! j"
      by (rule nth_append_length_plus)
    then show ?thesis unfolding val i by simp
  qed
  show ?thesis
    unfolding upd
    by (rule Validate_altered_byte [OF EncodeToString_no_dot EncodeToString_no_dot sign_no_dot refl j])
       (use b nth in simp)
qed

theorem altered_signature_rejected_witness:
  "Validate go_sample svc_test (t0 + 60000000000) ((Value tok_user123)[271 := CHR ''j''])
     = Inl (Errorf ''invalid signature'')"
proof -
  have lo: "signature_offset (Value tok_user123) \<le> 271"
    by (simp add: sample_offset)
  have hi: "271 < length (Value tok_user123)"
    by (simp add: tok_user123_def sample_len signature_user123_def)
  have b: "CHR ''j'' \<noteq> Value tok_user123 ! 271"
    by (simp add: tok_user123_def nth_append sample_len signature_user123_def)
  from altered_signature_rejected [OF sample_Generate123 lo hi b]
  show ?thesis by simp
qed

subsection \<open>When \<^verbatim>\<open>Generate\<close> fails\<close>

text \<open>
  Claim C8, as stated, fails: \<^verbatim>\<open>Generate\<close> never looks at the secret, and it fails on an
  authority that \<^verbatim>\<open>NewService\<close> constructed when the claims cannot be marshalled, for
  example when the metadata holds a channel.
\<close>

theorem Generate_fails_counterexample:
  "NewService cfg_test = Inr svc_test \<and>
   Generate go_sample svc_test t0 claims_chan
     = Inl (Wrapf ''marshal claims'' (Errorf ''json: unsupported type: chan int''))"
proof -
  have "json_Marshal go_sample (stamp svc_test t0 claims_chan)
          = Inl (Errorf ''json: unsupported type: chan int'')"
    by (simp add: go_sample_def sample_json_Marshal_def holds_chan_def stamp_def claims_chan_def)
  from Generate_Inl [OF this] show ?thesis
    by (simp add: NewService_def cfg_test_def svc_test_def)
qed

text \<open>
  Claim C8, amended.  \<^verbatim>\<open>NewService\<close> fails exactly when the secret is empty.  \<^verbatim>\<open>Generate\<close>,
  on any authority, fails exactly when \<^verbatim>\<open>json.Marshal\<close> fails on the stamped claims; so
  it succeeds for every claims value that can be marshalled.
\<close>

theorem Generate_fails_iff:
  "((\<exists>err. NewService cfg = Inl err) = (Secret cfg = []))
   \<and> ((\<exists>err. Generate L s now C = Inl err) = (\<exists>err. json_Marshal L (stamp s now C) = Inl err))"
proof -
  have a: "(\<exists>err. NewService cfg = Inl err) = (Secret cfg = [])"
    by (simp add: NewService_def)
  have b: "(\<exists>err. Generate L s now C = Inl err) = (\<exists>err. json_Marshal L (stamp s now C) = Inl err)"
  proof (cases "json_Marshal L (stamp s now C)")
    case (Inl err)
    then show ?thesis using Generate_Inl [OF Inl] by simp
  next
    case (Inr js)
    then show ?thesis using Generate_Inr [OF Inr] by simp
  qed
  from a b show ?thesis by simp
qed

theorem Generate_fails_iff_witness:
  "(\<exists>err. Generate go_sample svc_test t0 claims_chan = Inl err) \<and>
   \<not> (\<exists>err. Generate go_sample svc_test t0 claims_user123 = Inl err)"
proof -
  have a: "json_Marshal go_sample (stamp svc_test t0 claims_chan)
          = Inl (Errorf ''json: unsupported type: chan int'')"
    by (simp add: go_sample_def sample_json_Marshal_def holds_chan_def stamp_def claims_chan_def)
  from Generate_fails_iff [of cfg_test go_sample svc_test t0 claims_chan]
       Generate_fails_iff [of cfg_test go_sample svc_test t0 claims_user123]
  show ?thesis
    by (simp add: a sample_Marshal123)
qed

subsection \<open>Not-before\<close>

text \<open>
  Claim C10.  For every token string of three segments whose signature segment is the
  HMAC of the first two, whose claims segment decodes and unmarshals to \<open>claims\<close>, and
  whose expires-at is not before \<open>now\<close>, \<^verbatim>\<open>Validate\<close> returns \<open>claims\<close>: nothing is
  required of not-before.  The witness is a token whose not-before lies an hour after
  the time of validation.
\<close>

theorem Validate_ignores_NotBefore:
  assumes "Split tokenString (CHR ''.'') = [h, c, sg]"
    and "sg = sign L s (h @ ''.'' @ c)"
    and "DecodeString c = Some js"
    and "json_Unmarshal L js = Inr claims"
    and "now \<le> Claims.ExpiresAt claims"
  shows "Validate L s now tokenString = Inr claims"
  unfolding Validate_three [OF assms(1)] using assms(2-5)
  by (simp add: Time_After_def)

theorem Validate_ignores_NotBefore_witness:
  "t0 + 1 < NotBefore (stamp svc_test t0 claims_user456) \<and>
   Validate go_sample svc_test (t0 + 1) (Value tok_user456)
     = Inr (stamp svc_test t0 claims_user456)"
proof -
  have "t0 + 1 \<le> Claims.ExpiresAt (stamp svc_test t0 claims_user456)"
    by (simp add: stamp_def Time_Add_def svc_test_def cfg_test_def)
  from Validate_ignores_NotBefore [OF sample_Split456 refl DecodeString_EncodeToString
      sample_Unmarshal456 this]
  show ?thesis
    by (simp add: stamp_def claims_user456_def)
qed


section \<open>Repositories as association lists\<close>

lemma keyed_by_distinct: "keyed_by ident r \<Longrightarrow> distinct (map fst r)"
  by (simp add: keyed_by_def)

lemma keyed_by_ident:
  assumes "keyed_by ident r" and "map_of r k = Some v"
  shows "ident v = k"
proof -
  from assms(2) have "(k, v) \<in> set r" by (rule map_of_SomeD)
  with assms(1) show ?thesis
    by (auto simp: keyed_by_def list_all_iff)
qed

lemma keyed_by_update:
  assumes "keyed_by ident r" and "ident v = k"
  shows "keyed_by ident (AList.update k v r)"
  using assms
proof (induction r)
  case Nil
  then show ?case by (simp add: keyed_by_def)
next
  case (Cons p r)
  obtain k' v' where p: "p = (k', v')" by (cases p)
  from Cons.prems have tl: "keyed_by ident r" and hd: "ident v' = k'" "k' \<notin> fst ` set r"
    by (auto simp: keyed_by_def p)
  from Cons.IH [OF tl Cons.prems(2)] have ih: "keyed_by ident (AList.update k v r)" .
  show ?case
  proof (cases "k' = k")
    case True
    with Cons.prems p show ?thesis by (simp add: keyed_by_def)
  next
    case False
    with ih hd p show ?thesis
      by (auto simp: keyed_by_def dom_update)
  qed
qed

lemma keyed_by_delete:
  assumes "keyed_by ident r"
  shows "keyed_by ident (AList.delete k r)"
proof -
  from assms have "distinct (map fst (AList.delete k r))"
    by (simp add: keyed_by_def distinct_delete)
  moreover from assms have "list_all (\<lambda>(k, v). ident v = k) (AList.delete k r)"
    by (auto simp: keyed_by_def list_all_iff AList.delete_eq)
  ultimately show ?thesis by (simp add: keyed_by_def)
qed

lemma map_of_keyed_by_find:
  assumes "keyed_by ident r"
  shows "map_of r k = find (\<lambda>v. ident v = k) (map snd r)"
  using assms
proof (induction r)
  case Nil
  then show ?case by simp
next
  case (Cons p r)
  obtain k' v' where p: "p = (k', v')" by (cases p)
  from Cons.prems have tl: "keyed_by ident r" and hd: "ident v' = k'"
    by (auto simp: keyed_by_def p)
  with Cons.IH show ?case by (simp add: p)
qed

section \<open>The session repository and service\<close>

lemma DeleteExpired_loop_count:
  "snd (DeleteExpired_loop es now m n)
     = n + length (filter (\<lambda>(k, sess). Session.ExpiresAt sess < now) es)"
  by (induction es now m n rule: DeleteExpired_loop.induct) (simp_all add: Time_Before_def)

lemma DeleteExpired_loop_map_of:
  "map_of (fst (DeleteExpired_loop es now m n)) k
     = (if k \<in> fst ` set (filter (\<lambda>(k', s'). Session.ExpiresAt s' < now) es) then None
        else map_of m k)"
proof (induction es now m n rule: DeleteExpired_loop.induct)
  case (1 now sessions count)
  then show ?case by simp
next
  case (2 sid sess rest now sessions count)
  show ?case
  proof (cases "Time_Before (Session.ExpiresAt sess) now")
    case True
    then have e: "Session.ExpiresAt sess < now" by (simp add: Time_Before_def)
    from True "2.IH"(1) have
      "map_of (fst (DeleteExpired_loop ((sid, sess) # rest) now sessions count)) k
        = (if k \<in> fst ` set (filter (\<lambda>(k', s'). Session.ExpiresAt s' < now) rest) then None
           else map_of (AList.delete sid sessions) k)"
      by simp
    also have "\<dots> = (if k \<in> fst ` set (filter (\<lambda>(k', s'). Session.ExpiresAt s' < now) ((sid, sess) # rest))
                     then None else map_of sessions k)"
      using e by (auto simp: delete_conv image_iff)
    finally show ?thesis .
  next
    case False
    then have e: "\<not> Session.ExpiresAt sess < now" by (simp add: Time_Before_def)
    from False "2.IH"(2) have
      "map_of (fst (DeleteExpired_loop ((sid, sess) # rest) now sessions count)) k
        = (if k \<in> fst ` set (filter (\<lambda>(k', s'). Session.ExpiresAt s' < now) rest) then None
           else map_of sessions k)"
      by simp
    also have "\<dots> = (if k \<in> fst ` set (filter (\<lambda>(k', s'). Session.ExpiresAt s' < now) ((sid, sess) # rest))
                     then None else map_of sessions k)"
      using e by (auto simp: image_iff)
    finally show ?thesis .
  qed
qed

lemma expired_keys:
  assumes "distinct (map fst r)"
  shows "fst ` set (filter (\<lambda>(k', s'). Session.ExpiresAt s' < now) r)
           = {k. \<exists>sess. map_of r k = Some sess \<and> Session.ExpiresAt sess < now}"
proof (rule set_eqI)
  fix k
  show "k \<in> fst ` set (filter (\<lambda>(k', s'). Session.ExpiresAt s' < now) r)
          \<longleftrightarrow> k \<in> {k. \<exists>sess. map_of r k = Some sess \<and> Session.ExpiresAt sess < now}"
  proof
    assume "k \<in> fst ` set (filter (\<lambda>(k', s'). Session.ExpiresAt s' < now) r)"
    then obtain sess where "(k, sess) \<in> set r" "Session.ExpiresAt sess < now"
      by auto
    with assms show "k \<in> {k. \<exists>sess. map_of r k = Some sess \<and> Session.ExpiresAt sess < now}"
      by auto
  next
    assume "k \<in> {k. \<exists>sess. map_of r k = Some sess \<and> Session.ExpiresAt sess < now}"
    then obtain sess where "map_of r k = Some sess" "Session.ExpiresAt sess < now"
      by auto
    then have "(k, sess) \<in> set (filter (\<lambda>(k', s'). Session.ExpiresAt s' < now) r)"
      by (auto dest: map_of_SomeD)
    then show "k \<in> fst ` set (filter (\<lambda>(k', s'). Session.ExpiresAt s' < now) r)"
      by force
  qed
qed

lemma expired_count:
  assumes "distinct (map fst r)"
  shows "length (filter (\<lambda>(k, sess). Session.ExpiresAt sess < now) r)
           = card {k. \<exists>sess. map_of r k = Some sess \<and> Session.ExpiresAt sess < now}"
proof -
  let ?P = "\<lambda>(k, sess). Session.ExpiresAt sess < now"
  have d: "distinct (map fst (filter ?P r))"
    using assms by (rule distinct_map_filter)
  have "set (map fst (filter ?P r)) = fst ` set (filter (\<lambda>(k', s'). Session.ExpiresAt s' < now) r)"
    by simp
  then have "card (fst ` set (filter (\<lambda>(k', s'). Session.ExpiresAt s' < now) r))
               = length (map fst (filter ?P r))"
    using distinct_card [OF d] by simp
  then show ?thesis
    unfolding expired_keys [OF assms] by simp
qed

lemma DeleteExpired_result:
  "SessionRepository_DeleteExpired r now
     = ((snd (DeleteExpired_loop r now r 0), None), fst (DeleteExpired_loop r now r 0))"
  by (simp add: SessionRepository_DeleteExpired_def split: prod.splits)

lemma cleanup_tick_repo:
  "session_Service.repo (cleanup_tick s now)
     = snd (SessionRepository_DeleteExpired (session_Service.repo s) now)"
  by (simp add: cleanup_tick_def DeleteExpired_result)

lemma DeleteExpired_keyed_by:
  "keyed_by ident m \<Longrightarrow> keyed_by ident (fst (DeleteExpired_loop es now m n))"
  by (induction es now m n rule: DeleteExpired_loop.induct) (simp_all add: keyed_by_delete)

text \<open>
  Claim C5.  On a repository whose keys are distinct (a Go map), one cleanup sweep
  calls \<^verbatim>\<open>DeleteExpired\<close> once; it returns without error the number of sessions whose
  expires-at is strictly before the sweep time \<open>now\<close>, and afterwards exactly those
  sessions are gone: every other identifier still maps to the session it mapped to
  before.
\<close>

theorem DeleteExpired_removes_exactly_expired:
  assumes "distinct (map fst (session_Service.repo s))"
  shows "\<exists>count r'.
           SessionRepository_DeleteExpired (session_Service.repo s) now = ((count, None), r')
         \<and> session_Service.repo (cleanup_tick s now) = r'
         \<and> count = card {k. \<exists>sess. map_of (session_Service.repo s) k = Some sess
                                   \<and> Session.ExpiresAt sess < now}
         \<and> (\<forall>k. map_of r' k =
                (case map_of (session_Service.repo s) k of
                   None \<Rightarrow> None
                 | Some sess \<Rightarrow> if Session.ExpiresAt sess < now then None else Some sess))"
proof -
  let ?r = "session_Service.repo s"
  let ?res = "DeleteExpired_loop ?r now ?r 0"
  have cnt: "snd ?res = card {k. \<exists>sess. map_of ?r k = Some sess \<and> Session.ExpiresAt sess < now}"
    unfolding DeleteExpired_loop_count expired_count [OF assms, symmetric] by simp
  have m: "map_of (fst ?res) k =
                (case map_of ?r k of
                   None \<Rightarrow> None
                 | Some sess \<Rightarrow> if Session.ExpiresAt sess < now then None else Some sess)" for k
    unfolding DeleteExpired_loop_map_of expired_keys [OF assms]
    by (simp split: option.splits)
  show ?thesis
    unfolding cleanup_tick_repo DeleteExpired_result using cnt m by simp
qed

lemma sample_DeleteExpired:
  "SessionRepository_DeleteExpired (session_Service.repo sessions_sample) t0
     = ((1, None), [(''sess-valid'', sess_valid)])"
proof -
  have a: "Time_Before (Session.ExpiresAt sess_expired) t0"
    by (simp add: Time_Before_def sess_expired_def)
  have b: "\<not> Time_Before (Session.ExpiresAt sess_valid) t0"
    by (simp add: Time_Before_def sess_valid_def)
  show ?thesis
    by (simp add: SessionRepository_DeleteExpired_def sessions_sample_def a b)
qed

theorem DeleteExpired_removes_exactly_expired_witness:
  "SessionRepository_DeleteExpired (session_Service.repo sessions_sample) t0
     = ((1, None), [(''sess-valid'', sess_valid)])
   \<and> card {k. \<exists>sess. map_of (session_Service.repo sessions_sample) k = Some sess
                     \<and> Session.ExpiresAt sess < t0} = 1
   \<and> map_of (session_Service.repo (cleanup_tick sessions_sample t0)) ''sess-expired'' = None
   \<and> map_of (session_Service.repo (cleanup_tick sessions_sample t0)) ''sess-valid''
       = Some sess_valid"
proof -
  have d: "distinct (map fst (session_Service.repo sessions_sample))"
    by (simp add: sessions_sample_def)
  from DeleteExpired_removes_exactly_expired [OF d, of t0]
  obtain count r' where
    r: "SessionRepository_DeleteExpired (session_Service.repo sessions_sample) t0
          = ((count, None), r')"
    and t: "session_Service.repo (cleanup_tick sessions_sample t0) = r'"
    and c: "count = card {k. \<exists>sess. map_of (session_Service.repo sessions_sample) k = Some sess
                                   \<and> Session.ExpiresAt sess < t0}"
    by blast
  from r sample_DeleteExpired have "count = 1" and "r' = [(''sess-valid'', sess_valid)]"
    by simp_all
  with t c sample_DeleteExpired show ?thesis by simp
qed

text \<open>
  Claim C7.  For a stored session whose expires-at is before \<open>now\<close>, \<^verbatim>\<open>Get\<close> returns the
  error \<^verbatim>\<open>session expired\<close>, which differs from the error for an unknown identifier
  (\<^verbatim>\<open>get session: session not found\<close>), and the repository after the call is the
  repository before it: the record is neither deleted nor changed.
\<close>

theorem Get_expired:
  assumes "map_of (session_Service.repo s) sid = Some sess"
    and "Session.ExpiresAt sess < now"
  shows "fst (session_Get s now sid) = Inl (Errorf ''session expired'')
       \<and> Errorf ''session expired'' \<noteq> Wrapf ''get session'' (Errorf ''session not found'')
       \<and> session_Service.repo (snd (session_Get s now sid)) = session_Service.repo s
       \<and> (\<forall>sid'. map_of (session_Service.repo s) sid' = None \<longrightarrow>
             session_Get s now sid'
               = (Inl (Wrapf ''get session'' (Errorf ''session not found'')), s))"
  using assms
  by (simp add: session_Get_def SessionRepository_Get_def IsExpired_def Time_After_def)

theorem Get_expired_witness:
  "fst (session_Get sessions_sample t0 ''sess-expired'') = Inl (Errorf ''session expired'')
   \<and> session_Service.repo (snd (session_Get sessions_sample t0 ''sess-expired''))
       = [(''sess-expired'', sess_expired), (''sess-valid'', sess_valid)]
   \<and> session_Get sessions_sample t0 ''sess-unknown''
       = (Inl (Wrapf ''get session'' (Errorf ''session not found'')), sessions_sample)"
proof -
  have a: "map_of (session_Service.repo sessions_sample) ''sess-expired'' = Some sess_expired"
    by (simp add: sessions_sample_def)
  have b: "Session.ExpiresAt sess_expired < t0"
    by (simp add: sess_expired_def)
  have c: "map_of (session_Service.repo sessions_sample) ''sess-unknown'' = None"
    by (simp add: sessions_sample_def)
  from Get_expired [OF a b] c show ?thesis
    by (simp add: sessions_sample_def)
qed

text \<open>
  Claim C9.  In a repository that stores every session under its own identifier, for a
  stored session that has not expired at \<open>now\<close>, \<^verbatim>\<open>Update\<close> succeeds; afterwards the
  identifier maps to the old session with its data replaced by \<open>d\<close> and its updated-at
  set to the time \<open>now'\<close> read by \<^verbatim>\<open>Touch\<close>.  Identifier, user, service, created-at and
  expires-at are those of the old session, and no other session changes.
\<close>

theorem Update_changes_data_and_UpdatedAt:
  assumes "keyed_by Session.ID (session_Service.repo s)"
    and "map_of (session_Service.repo s) sid = Some sess"
    and "now \<le> Session.ExpiresAt sess"
  shows "\<exists>s'. session_Update s now now' sid d = (None, s')
            \<and> map_of (session_Service.repo s') sid = Some (sess\<lparr>Data := d, UpdatedAt := now'\<rparr>)
            \<and> (\<forall>k. k \<noteq> sid \<longrightarrow>
                  map_of (session_Service.repo s') k = map_of (session_Service.repo s) k)
            \<and> keyed_by Session.ID (session_Service.repo s')"
proof -
  let ?sess' = "sess\<lparr>Data := d, UpdatedAt := now'\<rparr>"
  have sid: "Session.ID sess = sid"
    using assms(1,2) by (rule keyed_by_ident)
  have get: "session_Get s now sid = (Inr sess, s)"
    using assms(2,3)
    by (simp add: session_Get_def SessionRepository_Get_def IsExpired_def Time_After_def)
  have upd: "SessionRepository_Update (session_Service.repo s) ?sess'
               = (None, AList.update sid ?sess' (session_Service.repo s))"
    using assms(2) sid by (simp add: SessionRepository_Update_def)
  have res: "session_Update s now now' sid d
               = (None, s\<lparr>session_Service.repo := AList.update sid ?sess' (session_Service.repo s)\<rparr>)"
    by (simp add: session_Update_def get Touch_def upd)
  have "keyed_by Session.ID (AList.update sid ?sess' (session_Service.repo s))"
    using assms(1) sid by (simp add: keyed_by_update)
  with res show ?thesis
    by (simp add: update_conv')
qed

theorem Update_changes_data_and_UpdatedAt_witness:
  "fst (session_Update sessions_sample t0 (t0 + 5) ''sess-valid'' [(''theme'', AnyString ''light'')])
     = None
   \<and> map_of (session_Service.repo (snd (session_Update sessions_sample t0 (t0 + 5) ''sess-valid''
             [(''theme'', AnyString ''light'')]))) ''sess-valid''
       = Some (sess_valid\<lparr>Data := [(''theme'', AnyString ''light'')], UpdatedAt := t0 + 5\<rparr>)
   \<and> map_of (session_Service.repo (snd (session_Update sessions_sample t0 (t0 + 5) ''sess-valid''
             [(''theme'', AnyString ''light'')]))) ''sess-expired''
       = Some sess_expired"
proof -
  have a: "keyed_by Session.ID (session_Service.repo sessions_sample)"
    by (simp add: keyed_by_def sessions_sample_def sess_expired_def sess_valid_def)
  have b: "map_of (session_Service.repo sessions_sample) ''sess-valid'' = Some sess_valid"
    by (simp add: sessions_sample_def)
  have c: "t0 \<le> Session.ExpiresAt sess_valid"
    by (simp add: sess_valid_def)
  have e: "map_of (session_Service.repo sessions_sample) ''sess-expired'' = Some sess_expired"
    by (simp add: sessions_sample_def)
  from Update_changes_data_and_UpdatedAt [OF a b c, of "t0 + 5" "[(''theme'', AnyString ''light'')]"]
  obtain s' where
    u: "session_Update sessions_sample t0 (t0 + 5) ''sess-valid'' [(''theme'', AnyString ''light'')]
       = (None, s')"
    and m: "map_of (session_Service.repo s') ''sess-valid''
       = Some (sess_valid\<lparr>Data := [(''theme'', AnyString ''light'')], UpdatedAt := t0 + 5\<rparr>)"
    and o: "\<forall>k. k \<noteq> ''sess-valid'' \<longrightarrow>
          map_of (session_Service.repo s') k = map_of (session_Service.repo sessions_sample) k"
    by blast
  from o e have "map_of (session_Service.repo s') ''sess-expired'' = Some sess_expired"
    by simp
  with u m show ?thesis by simp
qed

section \<open>The registry\<close>

lemma hasCapability_loop_iff: "hasCapability_loop caps capability = (capability \<in> set caps)"
  by (induction caps) auto

lemma hasCapability_iff:
  "hasCapability svc capability = (capability = [] \<or> capability \<in> set (Capabilities svc))"
  by (simp add: hasCapability_def hasCapability_loop_iff)

lemma Discover_loop_filter:
  "Discover_loop services capability matched
     = matched @ filter (\<lambda>svc. Status svc = StatusHealthy \<and> hasCapability svc capability) services"
  by (induction services arbitrary: matched) simp_all

text \<open>
  Claim C4.  \<^verbatim>\<open>List\<close> returns the records of the repository, and for every capability
  string \<^verbatim>\<open>Discover\<close> returns, in the order of that list, exactly the records whose status
  is \<^verbatim>\<open>healthy\<close> and whose capabilities contain the string, or all healthy records when
  the string is empty.  No record it returns has status \<^verbatim>\<open>unknown\<close> or \<^verbatim>\<open>unhealthy\<close>.
\<close>

theorem Discover_exact:
  "registry_List s = Inr (map snd (registry_Service.repo s))
   \<and> Discover s capability =
       Inr (filter (\<lambda>svc. Status svc = StatusHealthy
                          \<and> (capability = [] \<or> capability \<in> set (Capabilities svc)))
              (map snd (registry_Service.repo s)))
   \<and> Discover s [] =
       Inr (filter (\<lambda>svc. Status svc = StatusHealthy) (map snd (registry_Service.repo s)))
   \<and> (\<forall>found svc. Discover s capability = Inr found \<longrightarrow> svc \<in> set found \<longrightarrow>
          Status svc \<noteq> StatusUnknown \<and> Status svc \<noteq> StatusUnhealthy)"
proof -
  have l: "registry_List s = Inr (map snd (registry_Service.repo s))"
    by (simp add: registry_List_def RegistryRepository_List_def)
  have d: "Discover s c =
       Inr (filter (\<lambda>svc. Status svc = StatusHealthy \<and> (c = [] \<or> c \<in> set (Capabilities svc)))
              (map snd (registry_Service.repo s)))" for c
    by (simp add: Discover_def l Discover_loop_filter hasCapability_iff)
  have "Status svc \<noteq> StatusUnknown \<and> Status svc \<noteq> StatusUnhealthy"
    if "Discover s capability = Inr found" "svc \<in> set found" for found svc
  proof -
    from that d [of capability] have "Status svc = StatusHealthy" by auto
    then show ?thesis
      by (simp add: StatusHealthy_def StatusUnknown_def StatusUnhealthy_def)
  qed
  with l d [of capability] d [of "[]"] show ?thesis by simp
qed

theorem Discover_exact_witness:
  "Discover registry_sample ''payment'' = Inr [svc_payment]
   \<and> Discover registry_sample ''refund'' = Inr []
   \<and> Discover registry_sample [] = Inr [svc_payment]"
proof -
  have s: "Status svc_payment = StatusHealthy" "Status svc_refund \<noteq> StatusHealthy"
    "Status svc_seeded \<noteq> StatusHealthy"
    by (simp_all add: svc_payment_def svc_refund_def svc_seeded_def StatusHealthy_def)
  have c: "''payment'' \<in> set (Capabilities svc_payment)"
    "''refund'' \<notin> set (Capabilities svc_payment)"
    by (simp_all add: svc_payment_def)
  from Discover_exact [of registry_sample "''payment''"]
       Discover_exact [of registry_sample "''refund''"]
  show ?thesis
    by (simp add: registry_sample_def s c)
qed

lemma Duration_mul_2:
  assumes "0 \<le> i" and "i < 2 ^ 62"
  shows "Duration_mul i 2 = 2 * i"
proof -
  have "0 \<le> i * 2 + 2 ^ 63" and "i * 2 + 2 ^ 63 < (2 ^ 64 :: int)"
    using assms by simp_all
  then have "(i * 2 + 2 ^ 63) mod 2 ^ 64 = i * 2 + 2 ^ 63"
    by (rule mod_pos_pos_trivial)
  then show ?thesis by (simp add: Duration_mul_def)
qed

lemma Time_Sub_less:
  assumes "0 \<le> T" and "T \<le> maxDuration"
  shows "(Time_Sub t u < T) = (t - u < T)"
  using assms by (auto simp: Time_Sub_def Let_def minDuration_def maxDuration_def)

lemma not_IsHealthy_iff:
  assumes "0 \<le> i" and "i < 2 ^ 62"
  shows "(\<not> IsHealthy svc now (Duration_mul i 2)) = heartbeat_timed_out svc now i"
proof -
  have T: "0 \<le> 2 * i" "2 * i \<le> maxDuration"
    using assms by (simp_all add: maxDuration_def)
  show ?thesis
    unfolding IsHealthy_def heartbeat_timed_out_def time_Since_def
      Duration_mul_2 [OF assms] Time_Sub_less [OF T]
    by auto
qed

lemma loop_interval:
  "healthCheckInterval (fst (performHealthChecks_loop svcs now s probes)) = healthCheckInterval s"
  by (induction svcs now s probes rule: performHealthChecks_loop.induct)
     (simp_all add: Let_def)

lemma loop_probes:
  "snd (performHealthChecks_loop svcs now s probes)
     = probes @ filter (\<lambda>svc. HealthCheckURL svc \<noteq> []) svcs"
  by (induction svcs now s probes rule: performHealthChecks_loop.induct)
     (simp_all add: Let_def)

lemma loop_logger:
  assumes "0 \<le> healthCheckInterval s" and "healthCheckInterval s < 2 ^ 62"
  shows "registry_Service.logger (fst (performHealthChecks_loop svcs now s probes))
     = registry_Service.logger s @
       map heartbeat_warning
         (filter (\<lambda>svc. HealthCheckURL svc = []
                        \<and> heartbeat_timed_out svc now (healthCheckInterval s)) svcs)"
  using assms
proof (induction svcs now s probes rule: performHealthChecks_loop.induct)
  case (1 now s probes)
  then show ?case by simp
next
  case (2 svc rest now s probes)
  note h = not_IsHealthy_iff [OF "2.prems", of svc now]
  show ?case
  proof (cases "HealthCheckURL svc = []")
    case False
    with "2.IH"(3) "2.prems" show ?thesis by simp
  next
    case True
    show ?thesis
    proof (cases "heartbeat_timed_out svc now (healthCheckInterval s)")
      case False
      with True h "2.IH"(2) "2.prems" show ?thesis by simp
    next
      case t: True
      let ?s' = "s\<lparr>registry_Service.repo :=
                    snd (RegistryRepository_Update (registry_Service.repo s) (MarkUnhealthy svc)),
                  registry_Service.logger := registry_Service.logger s @
                       [LogWarn ''service marked unhealthy (heartbeat timeout)''
                          [(''service_id'', FString (Service.ID (MarkUnhealthy svc))),
                           (''name'', FString (Name (MarkUnhealthy svc)))]]\<rparr>"
      have nh: "\<not> IsHealthy svc now (Duration_mul (healthCheckInterval s) 2)"
        using h t by simp
      have i: "0 \<le> healthCheckInterval ?s'" "healthCheckInterval ?s' < 2 ^ 62"
        using "2.prems" by simp_all
      have ih: "registry_Service.logger (fst (performHealthChecks_loop rest now ?s' probes))
          = registry_Service.logger ?s' @
            map heartbeat_warning
              (filter (\<lambda>svc. HealthCheckURL svc = []
                             \<and> heartbeat_timed_out svc now (healthCheckInterval ?s')) rest)"
        using "2.IH"(1) [OF True nh refl refl refl i] .
      have w: "LogWarn ''service marked unhealthy (heartbeat timeout)''
                  [(''service_id'', FString (Service.ID (MarkUnhealthy svc))),
                   (''name'', FString (Name (MarkUnhealthy svc)))] = heartbeat_warning svc"
        by (simp add: heartbeat_warning_def MarkUnhealthy_def)
      have step: "performHealthChecks_loop (svc # rest) now s probes
                    = performHealthChecks_loop rest now ?s' probes"
        using True nh by (simp add: Let_def)
      show ?thesis
        unfolding step ih using True t by (simp add: w)
    qed
  qed
qed

lemma find_absent: "k \<notin> f ` set xs \<Longrightarrow> find (\<lambda>x. f x = k) xs = None"
  by (induction xs) auto

lemma Update_present:
  assumes "map_of r (Service.ID svc) \<noteq> None"
  shows "snd (RegistryRepository_Update r svc) = AList.update (Service.ID svc) svc r"
  using assms by (auto simp: RegistryRepository_Update_def)

lemma loop_fst_probes:
  "fst (performHealthChecks_loop svcs now s p) = fst (performHealthChecks_loop svcs now s q)"
proof (induction svcs arbitrary: s p q)
  case Nil
  show ?case by simp
next
  case (Cons svc rest)
  show ?case
    using Cons.IH [of s p q] Cons.IH [of s "p @ [svc]" "q @ [svc]"] Cons.IH
    by (simp add: Let_def)
qed

text \<open>What the loop does to the state for one record without a health-check URL.\<close>

lemma loop_step_marked:
  assumes "HealthCheckURL svc = []"
    and "\<not> IsHealthy svc now (Duration_mul (healthCheckInterval s) 2)"
    and "map_of (registry_Service.repo s) (Service.ID svc) \<noteq> None"
  shows "performHealthChecks_loop (svc # rest) now s probes
     = performHealthChecks_loop rest now
         (s\<lparr>registry_Service.repo :=
               AList.update (Service.ID svc) (MarkUnhealthy svc) (registry_Service.repo s),
             registry_Service.logger := registry_Service.logger s @ [heartbeat_warning svc]\<rparr>)
         probes"
proof -
  have id: "Service.ID (MarkUnhealthy svc) = Service.ID svc"
    and nm: "Name (MarkUnhealthy svc) = Name svc"
    by (simp_all add: MarkUnhealthy_def)
  have "snd (RegistryRepository_Update (registry_Service.repo s) (MarkUnhealthy svc))
          = AList.update (Service.ID svc) (MarkUnhealthy svc) (registry_Service.repo s)"
    using Update_present [of "registry_Service.repo s" "MarkUnhealthy svc"] assms(3)
    by (simp add: id)
  then show ?thesis
    using assms(1,2) by (simp add: Let_def heartbeat_warning_def id nm)
qed

lemma loop_step_unmarked:
  assumes "\<not> (HealthCheckURL svc = []
              \<and> \<not> IsHealthy svc now (Duration_mul (healthCheckInterval s) 2))"
  shows "fst (performHealthChecks_loop (svc # rest) now s probes)
     = fst (performHealthChecks_loop rest now s probes)"
proof (cases "HealthCheckURL svc = []")
  case True
  with assms show ?thesis by simp
next
  case False
  then have "performHealthChecks_loop (svc # rest) now s probes
               = performHealthChecks_loop rest now s (probes @ [svc])"
    by simp
  then show ?thesis
    using loop_fst_probes [of rest now s "probes @ [svc]" probes] by simp
qed

lemma loop_repo:
  assumes "healthCheckInterval s = i" and "0 \<le> i" and "i < 2 ^ 62"
    and "distinct (map Service.ID svcs)"
    and "\<forall>svc \<in> set svcs. map_of (registry_Service.repo s) (Service.ID svc) \<noteq> None"
  shows "map_of (registry_Service.repo (fst (performHealthChecks_loop svcs now s probes))) k
     = (case find (\<lambda>svc. Service.ID svc = k) svcs of
          None \<Rightarrow> map_of (registry_Service.repo s) k
        | Some svc \<Rightarrow>
            if HealthCheckURL svc = [] \<and> heartbeat_timed_out svc now i
            then Some (MarkUnhealthy svc)
            else map_of (registry_Service.repo s) k)"
  using assms
proof (induction svcs arbitrary: s)
  case Nil
  show ?case by simp
next
  case (Cons svc rest)
  let ?r = "registry_Service.repo s"
  let ?rhs = "\<lambda>r. case find (\<lambda>svc. Service.ID svc = k) rest of
          None \<Rightarrow> map_of r k
        | Some svc \<Rightarrow>
            if HealthCheckURL svc = [] \<and> heartbeat_timed_out svc now i
            then Some (MarkUnhealthy svc)
            else map_of r k"
  have h: "(\<not> IsHealthy svc now (Duration_mul (healthCheckInterval s) 2))
             = heartbeat_timed_out svc now i"
    using not_IsHealthy_iff [OF Cons.prems(2,3), of svc now] Cons.prems(1) by simp
  from Cons.prems(4) have d: "distinct (map Service.ID rest)"
    and fresh: "Service.ID svc \<notin> Service.ID ` set rest" by simp_all
  from Cons.prems(5) have present: "map_of ?r (Service.ID svc) \<noteq> None"
    and keys: "\<forall>svc \<in> set rest. map_of ?r (Service.ID svc) \<noteq> None"
    by simp_all
  have nf: "find (\<lambda>svc'. Service.ID svc' = Service.ID svc) rest = None"
    using fresh by (rule find_absent)
  show ?case
  proof (cases "HealthCheckURL svc = [] \<and> heartbeat_timed_out svc now i")
    case False
    then have "\<not> (HealthCheckURL svc = []
              \<and> \<not> IsHealthy svc now (Duration_mul (healthCheckInterval s) 2))"
      using h by simp
    then have step: "fst (performHealthChecks_loop (svc # rest) now s probes)
                       = fst (performHealthChecks_loop rest now s probes)"
      by (rule loop_step_unmarked)
    have ih: "map_of (registry_Service.repo (fst (performHealthChecks_loop rest now s probes))) k
                = ?rhs ?r"
      using Cons.IH [OF Cons.prems(1,2,3) d keys] .
    show ?thesis
    proof (cases "Service.ID svc = k")
      case True
      then have "find (\<lambda>svc. Service.ID svc = k) rest = None" using nf by simp
      then show ?thesis
        unfolding step ih using True False by auto
    next
      case k: False
      then show ?thesis
        unfolding step ih by simp
    qed
  next
    case True
    then have url: "HealthCheckURL svc = []"
      and nh: "\<not> IsHealthy svc now (Duration_mul (healthCheckInterval s) 2)"
      using h by simp_all
    let ?r' = "AList.update (Service.ID svc) (MarkUnhealthy svc) ?r"
    let ?s' = "s\<lparr>registry_Service.repo := ?r',
             registry_Service.logger := registry_Service.logger s @ [heartbeat_warning svc]\<rparr>"
    have step: "performHealthChecks_loop (svc # rest) now s probes
                  = performHealthChecks_loop rest now ?s' probes"
      using url nh present by (rule loop_step_marked)
    have i': "healthCheckInterval ?s' = i"
      using Cons.prems(1) by simp
    have r': "registry_Service.repo ?s' = ?r'" by simp
    have keys': "\<forall>svc \<in> set rest. map_of (registry_Service.repo ?s') (Service.ID svc) \<noteq> None"
      unfolding r' using keys by (simp add: update_conv')
    have ih: "map_of (registry_Service.repo (fst (performHealthChecks_loop rest now ?s' probes))) k
                = ?rhs ?r'"
      using Cons.IH [OF i' Cons.prems(2,3) d keys'] unfolding r' .
    show ?thesis
    proof (cases "Service.ID svc = k")
      case k: True
      then have f: "find (\<lambda>svc. Service.ID svc = k) rest = None" using nf by simp
      have "map_of ?r' k = Some (MarkUnhealthy svc)"
        using k by (simp add: update_conv')
      then show ?thesis
        unfolding step ih f using k True by simp
    next
      case k: False
      have m: "map_of ?r' k = map_of ?r k"
        using k by (simp add: update_conv')
      show ?thesis
        unfolding step ih m using k by simp
    qed
  qed
qed

lemma keyed_by_values:
  assumes "keyed_by ident r"
  shows "map ident (map snd r) = map fst r"
  using assms by (induction r) (auto simp: keyed_by_def)

lemma keyed_by_present:
  assumes "keyed_by ident r" and "v \<in> set (map snd r)"
  shows "map_of r (ident v) \<noteq> None"
proof -
  from assms(2) obtain k where kv: "(k, v) \<in> set r" by auto
  with assms(1) have "ident v = k"
    by (auto simp: keyed_by_def list_all_iff)
  with kv have "ident v \<in> fst ` set r" by force
  then show ?thesis
    by (simp add: map_of_eq_None_iff)
qed

lemma performHealthChecks_loop_eq:
  "performHealthChecks s now
     = performHealthChecks_loop (map snd (registry_Service.repo s)) now s []"
  by (simp add: performHealthChecks_def RegistryRepository_List_def)

lemma performHealthChecks_repo:
  assumes "keyed_by Service.ID (registry_Service.repo s)"
    and "0 \<le> healthCheckInterval s" and "healthCheckInterval s < 2 ^ 62"
  shows "map_of (registry_Service.repo (fst (performHealthChecks s now))) k =
           (case map_of (registry_Service.repo s) k of
              None \<Rightarrow> None
            | Some svc \<Rightarrow>
                if HealthCheckURL svc = [] \<and> heartbeat_timed_out svc now (healthCheckInterval s)
                then Some (MarkUnhealthy svc) else Some svc)"
proof -
  let ?r = "registry_Service.repo s"
  have d: "distinct (map Service.ID (map snd ?r))"
    unfolding keyed_by_values [OF assms(1)] using assms(1) by (rule keyed_by_distinct)
  have p: "\<forall>svc \<in> set (map snd ?r). map_of ?r (Service.ID svc) \<noteq> None"
    using keyed_by_present [OF assms(1)] by blast
  have f: "find (\<lambda>svc. Service.ID svc = k) (map snd ?r) = map_of ?r k"
    using map_of_keyed_by_find [OF assms(1), of k] by simp
  show ?thesis
    unfolding performHealthChecks_loop_eq loop_repo [OF refl assms(2,3) d p] f
    by (simp split: option.splits)
qed

lemma performHealthChecks_logger:
  assumes "0 \<le> healthCheckInterval s" and "healthCheckInterval s < 2 ^ 62"
  shows "registry_Service.logger (fst (performHealthChecks s now))
     = registry_Service.logger s @
       map heartbeat_warning
         (filter (\<lambda>svc. HealthCheckURL svc = []
                        \<and> heartbeat_timed_out svc now (healthCheckInterval s))
            (map snd (registry_Service.repo s)))"
  unfolding performHealthChecks_loop_eq by (rule loop_logger [OF assms])


lemma sample_registry_keyed: "keyed_by Service.ID (registry_Service.repo registry_sample)"
  by (simp add: keyed_by_def registry_sample_def svc_payment_def svc_refund_def svc_seeded_def)

lemma sample_registry_interval:
  "healthCheckInterval registry_sample = 30000000000"
  "0 \<le> healthCheckInterval registry_sample"
  "healthCheckInterval registry_sample < 2 ^ 62"
  by (simp_all add: registry_sample_def)

lemma sample_registry_lookup:
  "map_of (registry_Service.repo registry_sample) ''svc-1'' = Some svc_payment"
  "map snd (registry_Service.repo registry_sample) = [svc_payment, svc_refund, svc_seeded]"
  "registry_Service.logger registry_sample = []"
  by (simp_all add: registry_sample_def)

lemma sample_registry_records:
  "HealthCheckURL svc_payment = []" "Status svc_payment = StatusHealthy"
  "Status svc_payment \<noteq> StatusUnhealthy"
  "LastHeartbeat svc_payment = t0 - 60000000000"
  "HealthCheckURL svc_refund = []" "Status svc_refund = StatusUnhealthy"
  "LastHeartbeat svc_refund = t0 - 1000000000"
  "HealthCheckURL svc_seeded \<noteq> []" "StatusHealthy \<noteq> StatusUnhealthy"
  by (simp_all add: svc_payment_def svc_refund_def svc_seeded_def StatusHealthy_def
        StatusUnhealthy_def)

text \<open>
  Claim C6, as stated, fails on records within the tolerance.  \<^verbatim>\<open>IsHealthy\<close> compares with
  \<open><\<close>, so a healthy record whose last heartbeat is exactly twice the interval old,
  which is not older than the tolerance, is marked unhealthy.  And \<^verbatim>\<open>IsHealthy\<close> is false
  for every record that is already unhealthy, so such a record is written and logged
  again in every sweep, however recent its heartbeat.
\<close>

theorem sweep_counterexample:
  "Status svc_payment = StatusHealthy \<and> HealthCheckURL svc_payment = []
   \<and> t0 - 2 * healthCheckInterval registry_sample \<le> LastHeartbeat svc_payment
   \<and> map_of (registry_Service.repo registry_sample) ''svc-1'' = Some svc_payment
   \<and> map_of (registry_Service.repo (fst (performHealthChecks registry_sample t0))) ''svc-1''
       = Some (svc_payment\<lparr>Status := StatusUnhealthy\<rparr>)
   \<and> HealthCheckURL svc_refund = []
   \<and> t0 - 2 * healthCheckInterval registry_sample < LastHeartbeat svc_refund
   \<and> registry_Service.logger (fst (performHealthChecks registry_sample t0))
       = [heartbeat_warning svc_payment, heartbeat_warning svc_refund]"
proof -
  have a: "heartbeat_timed_out svc_payment t0 (healthCheckInterval registry_sample)"
    by (simp add: heartbeat_timed_out_def sample_registry_records sample_registry_interval)
  have b: "heartbeat_timed_out svc_refund t0 (healthCheckInterval registry_sample)"
    by (simp add: heartbeat_timed_out_def sample_registry_records)
  have m: "map_of (registry_Service.repo (fst (performHealthChecks registry_sample t0))) ''svc-1''
       = Some (svc_payment\<lparr>Status := StatusUnhealthy\<rparr>)"
    unfolding performHealthChecks_repo [OF sample_registry_keyed sample_registry_interval(2,3)]
    by (simp add: sample_registry_lookup sample_registry_records a MarkUnhealthy_def)
  have l: "registry_Service.logger (fst (performHealthChecks registry_sample t0))
       = [heartbeat_warning svc_payment, heartbeat_warning svc_refund]"
    unfolding performHealthChecks_logger [OF sample_registry_interval(2,3)]
    by (simp add: sample_registry_lookup sample_registry_records a b)
  from m l show ?thesis
    by (simp add: sample_registry_lookup sample_registry_records sample_registry_interval)
qed

text \<open>
  Claim C6, amended.  In a registry that stores every record under its own identifier,
  with a monitor interval from 0 up to \<open>2\<^sup>6\<^sup>2\<close> nanoseconds (so that doubling it does not
  overflow), one sweep at time \<open>now\<close> does the following to the records without a
  health-check URL: a record whose status is already unhealthy, or whose last heartbeat
  is at least twice the interval old (\<open>2 * interval \<le> now - last\<close>), is stored with
  status unhealthy and the heartbeat-timeout warning is logged for it; every other
  record is left as it was, and nothing is logged for it.  Records with a health-check
  URL are not changed by the loop.
\<close>

theorem sweep_marks_timed_out:
  assumes "keyed_by Service.ID (registry_Service.repo s)"
    and "0 \<le> healthCheckInterval s" and "healthCheckInterval s < 2 ^ 62"
  shows "(\<forall>k. map_of (registry_Service.repo (fst (performHealthChecks s now))) k =
           (case map_of (registry_Service.repo s) k of
              None \<Rightarrow> None
            | Some svc \<Rightarrow>
                if HealthCheckURL svc = []
                   \<and> (Status svc = StatusUnhealthy
                      \<or> 2 * healthCheckInterval s \<le> now - LastHeartbeat svc)
                then Some (svc\<lparr>Status := StatusUnhealthy\<rparr>) else Some svc))
       \<and> registry_Service.logger (fst (performHealthChecks s now))
           = registry_Service.logger s @
             map heartbeat_warning
               (filter (\<lambda>svc. HealthCheckURL svc = []
                              \<and> (Status svc = StatusUnhealthy
                                 \<or> 2 * healthCheckInterval s \<le> now - LastHeartbeat svc))
                  (map snd (registry_Service.repo s)))"
proof (intro conjI allI)
  fix k
  show "map_of (registry_Service.repo (fst (performHealthChecks s now))) k =
           (case map_of (registry_Service.repo s) k of
              None \<Rightarrow> None
            | Some svc \<Rightarrow>
                if HealthCheckURL svc = []
                   \<and> (Status svc = StatusUnhealthy
                      \<or> 2 * healthCheckInterval s \<le> now - LastHeartbeat svc)
                then Some (svc\<lparr>Status := StatusUnhealthy\<rparr>) else Some svc)"
    by (simp only: performHealthChecks_repo [OF assms] heartbeat_timed_out_def MarkUnhealthy_def)
next
  show "registry_Service.logger (fst (performHealthChecks s now))
           = registry_Service.logger s @
             map heartbeat_warning
               (filter (\<lambda>svc. HealthCheckURL svc = []
                              \<and> (Status svc = StatusUnhealthy
                                 \<or> 2 * healthCheckInterval s \<le> now - LastHeartbeat svc))
                  (map snd (registry_Service.repo s)))"
    by (simp only: performHealthChecks_logger [OF assms(2,3)] heartbeat_timed_out_def)
qed

theorem sweep_marks_timed_out_witness:
  "map_of (registry_Service.repo (fst (performHealthChecks registry_sample (t0 + 1000000000))))
       ''svc-1'' = Some (svc_payment\<lparr>Status := StatusUnhealthy\<rparr>)
   \<and> map_of (registry_Service.repo (fst (performHealthChecks registry_sample (t0 - 1000000000))))
       ''svc-1'' = Some svc_payment
   \<and> registry_Service.logger (fst (performHealthChecks registry_sample (t0 - 1000000000)))
       = [heartbeat_warning svc_refund]"
proof -
  note th = sweep_marks_timed_out [OF sample_registry_keyed sample_registry_interval(2,3)]
  from th [of "t0 + 1000000000"]
  have a: "map_of (registry_Service.repo (fst (performHealthChecks registry_sample (t0 + 1000000000))))
       ''svc-1'' = Some (svc_payment\<lparr>Status := StatusUnhealthy\<rparr>)"
    by (simp add: sample_registry_lookup sample_registry_records sample_registry_interval)
  from th [of "t0 - 1000000000"]
  have b: "map_of (registry_Service.repo (fst (performHealthChecks registry_sample (t0 - 1000000000))))
       ''svc-1'' = Some svc_payment"
    and c: "registry_Service.logger (fst (performHealthChecks registry_sample (t0 - 1000000000)))
       = [heartbeat_warning svc_refund]"
    by (simp_all add: sample_registry_lookup sample_registry_records sample_registry_interval)
  from a b c show ?thesis by simp
qed

end
